theory Spec2Isabelle
  imports Complex_Main "HOL-Library.Word" "HOL-Library.Multiset"
begin

unbundle bit_operations_syntax

section \<open>Conventions\<close>

text \<open>
  The development embeds the rooftop analyser of \<^verbatim>\<open>analyze_rooftop.py\<close> and the batch
  loop of \<^verbatim>\<open>SolarPanelOptimizer.py\<close>.

  \<^item> Python's unbounded integers are \<^typ>\<open>int\<close>.
  \<^item> Python's floats are modelled by exact reals (\<^typ>\<open>real\<close>): the model has no
    rounding error, no NaN and no infinity, where the source rounds to a double after every
    operation. A value of the model can therefore differ from the value the source
    computes in its last digits, and a rounded value by one unit of its last place when
    the exact value is at or next to a tie. The theorems of the claims are stated so that
    they hold of the doubles too: they do not fix the last digits of a product or a
    quotient.
  \<^item> 8-bit image pixels (\<^verbatim>\<open>np.uint8\<close>) are \<^typ>\<open>8 word\<close>; a two-dimensional array
    is the list of its rows.
  \<^item> An exception is a value of \<open>py_error\<close>; a function that may raise returns
    \<open>py_error + 'a\<close> with \<open>Inl\<close> for the exception.
  \<^item> Python names that begin with an underscore lose it (\<^verbatim>\<open>_rate_suitability\<close> is
    \<open>rate_suitability\<close>), since an Isabelle name cannot start with one.
\<close>

datatype py_error = KeyError | ZeroDivisionError | ValueError | OtherError string

text \<open>Sequencing of computations that may raise: the first exception wins.\<close>

definition bind_res :: "py_error + 'a \<Rightarrow> ('a \<Rightarrow> py_error + 'b) \<Rightarrow> py_error + 'b" where
  "bind_res r f = (case r of Inl e \<Rightarrow> Inl e | Inr v \<Rightarrow> f v)"

text \<open>Python's \<^verbatim>\<open>a / b\<close> on floats raises on a zero divisor.\<close>

definition py_truediv :: "real \<Rightarrow> real \<Rightarrow> py_error + real" where
  "py_truediv a b = (if b = 0 then Inl ZeroDivisionError else Inr (a / b))"

text \<open>
  Python's \<^verbatim>\<open>round(x, nd)\<close>: to the nearest multiple of \<open>10 ^ - nd\<close>, a tie going to the
  even neighbour.
\<close>

definition round_half_even :: "real \<Rightarrow> int" where
  "round_half_even x =
     (let f = \<lfloor>x\<rfloor>; d = x - of_int f
      in if d < 1 / 2 then f
         else if 1 / 2 < d then f + 1
         else if even f then f else f + 1)"

definition py_round :: "real \<Rightarrow> nat \<Rightarrow> real" where
  "py_round x nd = of_int (round_half_even (x * 10 ^ nd)) / 10 ^ nd"

section \<open>Configuration\<close>

text \<open>
  A configuration is a Python dict from key names to numbers. Every component builds its
  own as \<^verbatim>\<open>{**DEFAULT_CONFIG, **(config or {})}\<close>: the caller's entries override the
  defaults, and keys the defaults do not have are carried along unread.
\<close>

type_synonym config = "string \<rightharpoonup> real"

definition DEFAULT_CONFIG :: config where
  "DEFAULT_CONFIG =
     [''latitude'' \<mapsto> 28.6139,
      ''longitude'' \<mapsto> 77.2090,
      ''pixel_to_meter'' \<mapsto> 0.15,
      ''panel_width_m'' \<mapsto> 1.0,
      ''panel_height_m'' \<mapsto> 1.7,
      ''panel_efficiency'' \<mapsto> 0.20,
      ''panel_power_w'' \<mapsto> 300,
      ''min_building_area'' \<mapsto> 500,
      ''max_building_area'' \<mapsto> 50000,
      ''edge_margin_percent'' \<mapsto> 0.10,
      ''panel_spacing_m'' \<mapsto> 0.1]"

definition merge_config :: "config \<Rightarrow> config" where
  "merge_config user = DEFAULT_CONFIG ++ user"

text \<open>\<^verbatim>\<open>self.config[k]\<close>: a missing key raises.\<close>

definition cfg_get :: "config \<Rightarrow> string \<Rightarrow> py_error + real" where
  "cfg_get cfg k = (case cfg k of None \<Rightarrow> Inl KeyError | Some v \<Rightarrow> Inr v)"

section \<open>Energy model\<close>

record energy =
  system_capacity_kw :: real
  total_panel_area_m2 :: real
  estimated_annual_kwh :: real
  estimated_monthly_kwh :: real
  estimated_daily_kwh :: real
  co2_offset_kg_year :: real

text \<open>
  \<^verbatim>\<open>SolarPanelOptimizer._calculate_energy\<close> of \<^verbatim>\<open>analyze_rooftop.py\<close>. The factor for the
  system losses is the literal \<^verbatim>\<open>0.86\<close>; no key of the configuration is read for it.
  The products and the rounded fields are those of exact arithmetic: the source computes
  them on doubles, so a field of the source can differ from the field of the model by the
  rounding error of the product, and by one unit of the rounded place when the exact product
  is at a tie (with the default configuration, latitude 40.625 and 94 panels the exact
  annual product is 51535.5, which the model rounds to 51536 and the source, whose double
  product is just below, to 51535).
\<close>

definition calculate_energy :: "config \<Rightarrow> int \<Rightarrow> py_error + energy" where
  "calculate_energy cfg num_panels =
     bind_res (cfg_get cfg ''panel_width_m'') (\<lambda>pw.
     bind_res (cfg_get cfg ''panel_height_m'') (\<lambda>ph.
     let panel_area_m2 = pw * ph;
         total_area_m2 = of_int num_panels * panel_area_m2
     in
     bind_res (cfg_get cfg ''panel_power_w'') (\<lambda>watts.
     let capacity_kw = (of_int num_panels * watts) / 1000 in
     bind_res (cfg_get cfg ''latitude'') (\<lambda>lat.
     let base_irradiance = 2200 - \<bar>lat\<bar> * 8 in
     bind_res (cfg_get cfg ''panel_efficiency'') (\<lambda>eff.
     let annual_kwh = total_area_m2 * base_irradiance * eff * 0.86 in
     Inr \<lparr>system_capacity_kw = py_round capacity_kw 2,
          total_panel_area_m2 = py_round total_area_m2 2,
          estimated_annual_kwh = py_round annual_kwh 0,
          estimated_monthly_kwh = py_round (annual_kwh / 12) 0,
          estimated_daily_kwh = py_round (annual_kwh / 365) 1,
          co2_offset_kg_year = py_round (annual_kwh * 0.82) 0\<rparr>)))))"


section \<open>Suitability scorer\<close>

record bounding_rect =
  rect_center :: "real \<times> real"
  rect_width :: real
  rect_height :: real
  rect_angle :: real

record rooftop =
  roof_id :: int
  contour :: "(int \<times> int) list"
  area_pixels :: real
  area_m2 :: real
  center :: "int \<times> int"
  bounding_rect :: bounding_rect
  box_points :: "(int \<times> int) list"

datatype rating = Excellent | Good | Fair | Poor

record suitability =
  score :: int
  rating :: rating
  max_score :: int
  obstacles_found :: int

text \<open>
  The guarded quotient of \<^verbatim>\<open>_rate_suitability\<close>:
  \<^verbatim>\<open>rect['width'] / rect['height'] if rect['height'] > 0 else 1\<close>.
\<close>

definition aspect_ratio :: "bounding_rect \<Rightarrow> py_error + real" where
  "aspect_ratio rect =
     (if rect_height rect > 0 then py_truediv (rect_width rect) (rect_height rect) else Inr 1)"

definition rate_suitability :: "rooftop \<Rightarrow> int \<Rightarrow> int \<Rightarrow> py_error + suitability" where
  "rate_suitability rooftop num_panels obstacle_count =
     (let score0 = (0::int);
          area = area_m2 rooftop;
          score1 = (if area \<ge> 50 then score0 + 35
                    else if area \<ge> 30 then score0 + 25
                    else if area \<ge> 20 then score0 + 15
                    else score0);
          score2 = (if num_panels \<ge> 10 then score1 + 35
                    else if num_panels \<ge> 5 then score1 + 25
                    else if num_panels \<ge> 2 then score1 + 15
                    else score1)
      in bind_res (aspect_ratio (bounding_rect rooftop)) (\<lambda>ratio.
         let score3 = (if 0.8 \<le> ratio \<and> ratio \<le> 1.5 then score2 + 15
                       else if 0.5 \<le> ratio \<and> ratio \<le> 2.0 then score2 + 10
                       else score2);
             score4 = (if obstacle_count = 0 then score3 + 15
                       else if obstacle_count \<le> 2 then score3 + 10
                       else if obstacle_count \<le> 5 then score3 + 5
                       else score3);
             r = (if score4 \<ge> 80 then Excellent
                  else if score4 \<ge> 60 then Good
                  else if score4 \<ge> 40 then Fair
                  else Poor)
         in Inr \<lparr>score = score4, rating = r, max_score = 100,
                 obstacles_found = obstacle_count\<rparr>))"

section \<open>Panel placement\<close>

subsection \<open>Arrays, slices and ranges\<close>

text \<open>
  A mask is a two-dimensional \<^verbatim>\<open>uint8\<close> array. Arrays are objects: a variable holds a
  reference, \<^verbatim>\<open>copy()\<close> allocates a new object and a slice assignment writes into the
  object referred to. The heap maps references to array contents; references below
  \<open>next_free\<close> are the allocated ones.
\<close>

type_synonym mask = "8 word list list"

type_synonym addr = nat

record heap =
  cells :: "addr \<Rightarrow> mask"
  next_free :: addr

definition ndarray_copy :: "heap \<Rightarrow> addr \<Rightarrow> addr \<times> heap" where
  "ndarray_copy hp a =
     (let b = next_free hp
      in (b, hp\<lparr>cells := (cells hp)(b := cells hp a), next_free := Suc b\<rparr>))"

definition heap_write :: "heap \<Rightarrow> addr \<Rightarrow> mask \<Rightarrow> heap" where
  "heap_write hp a m = hp\<lparr>cells := (cells hp)(a := m)\<rparr>"

text \<open>\<^verbatim>\<open>h, w = usable_mask.shape\<close>.\<close>

definition shape :: "mask \<Rightarrow> int \<times> int" where
  "shape m = (int (length m), (case m of [] \<Rightarrow> 0 | r # _ \<Rightarrow> int (length r)))"

text \<open>
  A slice bound of Python on a sequence of length \<open>n\<close>: a negative bound counts from the
  end, and every bound is clipped to the sequence.
\<close>

definition slice_bound :: "nat \<Rightarrow> int \<Rightarrow> nat" where
  "slice_bound n i = (if i < 0 then nat (max 0 (i + int n)) else min (nat i) n)"

definition py_slice :: "'a list \<Rightarrow> int \<Rightarrow> int \<Rightarrow> 'a list" where
  "py_slice xs a b =
     (let s = slice_bound (length xs) a; e = slice_bound (length xs) b
      in take (e - s) (drop s xs))"

text \<open>The elements of \<^verbatim>\<open>xs[a:b]\<close> replaced by their images, the others kept.\<close>

definition py_slice_map :: "('a \<Rightarrow> 'a) \<Rightarrow> 'a list \<Rightarrow> int \<Rightarrow> int \<Rightarrow> 'a list" where
  "py_slice_map f xs a b =
     (let s = slice_bound (length xs) a; e = slice_bound (length xs) b
      in if s < e then take s xs @ map f (take (e - s) (drop s xs)) @ drop e xs else xs)"

text \<open>\<^verbatim>\<open>m[y0:y1, x0:x1]\<close> and \<^verbatim>\<open>m[y0:y1, x0:x1] = 0\<close>.\<close>

definition region :: "mask \<Rightarrow> int \<Rightarrow> int \<Rightarrow> int \<Rightarrow> int \<Rightarrow> mask" where
  "region m y0 y1 x0 x1 = map (\<lambda>row. py_slice row x0 x1) (py_slice m y0 y1)"

definition zero_region :: "mask \<Rightarrow> int \<Rightarrow> int \<Rightarrow> int \<Rightarrow> int \<Rightarrow> mask" where
  "zero_region m y0 y1 x0 x1 =
     py_slice_map (\<lambda>row. py_slice_map (\<lambda>_. 0) row x0 x1) m y0 y1"

text \<open>\<^verbatim>\<open>range(start, stop, step)\<close>: a zero step raises \<^verbatim>\<open>ValueError\<close>.\<close>

definition py_range :: "int \<Rightarrow> int \<Rightarrow> int \<Rightarrow> py_error + int list" where
  "py_range start stop step =
     (if step = 0 then Inl ValueError
      else if step > 0 then
        Inr (map (\<lambda>k. start + int k * step) [0..<nat ((stop - start + step - 1) div step)])
      else
        Inr (map (\<lambda>k. start + int k * step) [0..<nat ((start - stop - step - 1) div (- step))]))"

text \<open>\<^verbatim>\<open>int(x)\<close> on a float truncates towards zero.\<close>

definition py_int :: "real \<Rightarrow> int" where
  "py_int x = (if x \<ge> 0 then \<lfloor>x\<rfloor> else \<lceil>x\<rceil>)"

subsection \<open>The optimizer object\<close>

record optimizer =
  config :: config
  panel_width_px :: int
  panel_height_px :: int

text \<open>\<^verbatim>\<open>SolarPanelOptimizer.__init__\<close>.\<close>

definition init_optimizer :: "config \<Rightarrow> py_error + optimizer" where
  "init_optimizer user =
     (let cfg = merge_config user in
      bind_res (cfg_get cfg ''panel_width_m'') (\<lambda>pw.
      bind_res (cfg_get cfg ''pixel_to_meter'') (\<lambda>p2m.
      bind_res (py_truediv pw p2m) (\<lambda>qw.
      bind_res (cfg_get cfg ''panel_height_m'') (\<lambda>ph.
      bind_res (cfg_get cfg ''pixel_to_meter'') (\<lambda>p2m'.
      bind_res (py_truediv ph p2m') (\<lambda>qh.
      Inr \<lparr>config = cfg, panel_width_px = py_int qw, panel_height_px = py_int qh\<rparr>)))))))"

subsection \<open>Panel geometry\<close>

record panel =
  panel_id :: int
  panel_center :: "real \<times> real"
  corners :: "(real \<times> real) list"
  rotation_degrees :: real
  dimensions_pixels :: "int \<times> int"
  dimensions_meters :: "real \<times> real"

text \<open>
  \<^verbatim>\<open>_create_panel_geometry\<close>. The method reads \<^verbatim>\<open>pixel_to_meter\<close> from the
  configuration; the placement pass has read the same key before its loops, so the value
  is passed in.
\<close>

definition create_panel_geometry ::
    "real \<Rightarrow> int \<Rightarrow> int \<Rightarrow> int \<Rightarrow> int \<Rightarrow> int \<Rightarrow> real \<Rightarrow> panel" where
  "create_panel_geometry pixel_to_meter pid x y width height angle =
     (let center_x = of_int x + of_int width / 2;
          center_y = of_int y + of_int height / 2;
          corners_local = [(x, y), (x + width, y), (x + width, y + height), (x, y + height)];
          angle_rad = angle * pi / 180;
          corners_rotated =
            map (\<lambda>(cx, cy).
                   let dx = of_int cx - center_x;
                       dy = of_int cy - center_y;
                       rx = dx * cos angle_rad - dy * sin angle_rad;
                       ry = dx * sin angle_rad + dy * cos angle_rad
                   in (py_round (center_x + rx) 2, py_round (center_y + ry) 2))
                corners_local
      in \<lparr>panel_id = pid,
          panel_center = (py_round center_x 2, py_round center_y 2),
          corners = corners_rotated,
          rotation_degrees = py_round angle 2,
          dimensions_pixels = (width, height),
          dimensions_meters = (py_round (of_int width * pixel_to_meter) 2,
                               py_round (of_int height * pixel_to_meter) 2)\<rparr>)"

text \<open>
  \<^verbatim>\<open>_check_corners_in_contour\<close>. The point-in-polygon test of the image library
  (\<^verbatim>\<open>cv2.pointPolygonTest\<close> without distance: positive inside, zero on the edge,
  negative outside) is a parameter.
\<close>

type_synonym polygon_test = "(int \<times> int) list \<Rightarrow> real \<times> real \<Rightarrow> real"

definition check_corners_in_contour ::
    "polygon_test \<Rightarrow> int \<Rightarrow> int \<Rightarrow> int \<Rightarrow> int \<Rightarrow> (int \<times> int) list \<Rightarrow> bool" where
  "check_corners_in_contour pointPolygonTest x y w h cnt =
     (let corner_points = [(x + w div 4, y + h div 4),
                           (x + 3 * w div 4, y + h div 4),
                           (x + w div 4, y + 3 * h div 4),
                           (x + 3 * w div 4, y + 3 * h div 4)];
          valid_count =
            length (filter (\<lambda>(cx, cy). pointPolygonTest cnt (of_int cx, of_int cy) \<ge> 0)
                           corner_points)
      in valid_count \<ge> 3)"

subsection \<open>One placement pass\<close>

text \<open>The variables the two loops of \<^verbatim>\<open>_place_panels_with_orientation\<close> update.\<close>

record pass_state =
  st_heap :: heap
  st_panels :: "panel list"
  st_panel_id :: int

text \<open>
  The body of the inner loop at the candidate \<open>(x, y)\<close>; \<open>av\<close> is the reference held by
  the variable \<^verbatim>\<open>available\<close>.
\<close>

definition place_candidate ::
    "polygon_test \<Rightarrow> real \<Rightarrow> addr \<Rightarrow> int \<Rightarrow> int \<Rightarrow> real \<Rightarrow> (int \<times> int) list \<Rightarrow>
     int \<Rightarrow> int \<Rightarrow> pass_state \<Rightarrow> pass_state" where
  "place_candidate pointPolygonTest p2m av panel_w panel_h roof_angle roof_contour y x st =
     (let available = cells (st_heap st) av;
          panel_region = region available y (y + panel_h) x (x + panel_w);
          region_size = length (concat panel_region)
      in if region_size = 0 then st
         else
           let coverage = real (length (filter (\<lambda>v. v > 0) (concat panel_region)))
                            / real region_size;
               corners_valid =
                 check_corners_in_contour pointPolygonTest x y panel_w panel_h roof_contour
           in if coverage > 0.90 \<and> corners_valid then
                st\<lparr>st_panels := st_panels st @
                      [create_panel_geometry p2m (st_panel_id st) x y panel_w panel_h roof_angle],
                   st_panel_id := st_panel_id st + 1,
                   st_heap := heap_write (st_heap st) av
                      (zero_region available y (y + panel_h) x (x + panel_w))\<rparr>
              else st)"

text \<open>The inner loop over the column positions of one row.\<close>

fun scan_columns ::
    "polygon_test \<Rightarrow> real \<Rightarrow> addr \<Rightarrow> int \<Rightarrow> int \<Rightarrow> real \<Rightarrow> (int \<times> int) list \<Rightarrow>
     int \<Rightarrow> int list \<Rightarrow> pass_state \<Rightarrow> pass_state" where
  "scan_columns ppt p2m av panel_w panel_h roof_angle roof_contour y [] st = st"
| "scan_columns ppt p2m av panel_w panel_h roof_angle roof_contour y (x # xs) st =
     scan_columns ppt p2m av panel_w panel_h roof_angle roof_contour y xs
       (place_candidate ppt p2m av panel_w panel_h roof_angle roof_contour y x st)"

text \<open>
  The outer loop. The inner \<^verbatim>\<open>range(0, w - panel_w, step_x)\<close> is evaluated anew in every
  row and raises there when its step is zero.
\<close>

fun scan_rows ::
    "polygon_test \<Rightarrow> real \<Rightarrow> addr \<Rightarrow> int \<Rightarrow> int \<Rightarrow> real \<Rightarrow> (int \<times> int) list \<Rightarrow>
     int \<Rightarrow> int \<Rightarrow> int list \<Rightarrow> pass_state \<Rightarrow> (py_error + panel list) \<times> heap" where
  "scan_rows ppt p2m av panel_w panel_h roof_angle roof_contour w step_x [] st =
     (Inr (st_panels st), st_heap st)"
| "scan_rows ppt p2m av panel_w panel_h roof_angle roof_contour w step_x (y # ys) st =
     (case py_range 0 (w - panel_w) step_x of
        Inl e \<Rightarrow> (Inl e, st_heap st)
      | Inr xs \<Rightarrow>
          scan_rows ppt p2m av panel_w panel_h roof_angle roof_contour w step_x ys
            (scan_columns ppt p2m av panel_w panel_h roof_angle roof_contour y xs st))"

text \<open>
  \<^verbatim>\<open>_place_panels_with_orientation\<close>. The result pairs what the call returns or raises
  with the heap it leaves behind.
\<close>

definition place_panels_with_orientation ::
    "polygon_test \<Rightarrow> optimizer \<Rightarrow> heap \<Rightarrow> addr \<Rightarrow> int \<Rightarrow> int \<Rightarrow> real \<Rightarrow> (int \<times> int) list \<Rightarrow>
     (py_error + panel list) \<times> heap" where
  "place_panels_with_orientation ppt self hp usable_mask panel_w panel_h roof_angle roof_contour =
     (let (h, w) = shape (cells hp usable_mask) in
      case bind_res (cfg_get (config self) ''panel_spacing_m'') (\<lambda>sp.
           bind_res (cfg_get (config self) ''pixel_to_meter'') (\<lambda>p2m.
           bind_res (py_truediv sp p2m) (\<lambda>q. Inr (p2m, max 1 (py_int q))))) of
        Inl e \<Rightarrow> (Inl e, hp)
      | Inr (p2m, spacing) \<Rightarrow>
          let step_x = panel_w + spacing;
              step_y = panel_h + spacing;
              (available, hp1) = ndarray_copy hp usable_mask
          in case py_range 0 (h - panel_h) step_y of
               Inl e \<Rightarrow> (Inl e, hp1)
             | Inr ys \<Rightarrow>
                 scan_rows ppt p2m available panel_w panel_h roof_angle roof_contour w step_x ys
                   \<lparr>st_heap = hp1, st_panels = [], st_panel_id = 1\<rparr>)"

text \<open>\<^verbatim>\<open>_place_panels_optimized\<close>: both passes are given the same reference.\<close>

definition place_panels_optimized ::
    "polygon_test \<Rightarrow> optimizer \<Rightarrow> heap \<Rightarrow> addr \<Rightarrow> real \<Rightarrow> (int \<times> int) list \<Rightarrow>
     (py_error + panel list) \<times> heap" where
  "place_panels_optimized ppt self hp usable_mask roof_angle roof_contour =
     (case place_panels_with_orientation ppt self hp usable_mask
             (panel_width_px self) (panel_height_px self) roof_angle roof_contour of
        (Inl e, hp1) \<Rightarrow> (Inl e, hp1)
      | (Inr panels_landscape, hp1) \<Rightarrow>
          (case place_panels_with_orientation ppt self hp1 usable_mask
                  (panel_height_px self) (panel_width_px self) roof_angle roof_contour of
             (Inl e, hp2) \<Rightarrow> (Inl e, hp2)
           | (Inr panels_portrait, hp2) \<Rightarrow>
               (if length panels_landscape \<ge> length panels_portrait
                then (Inr panels_landscape, hp2)
                else (Inr panels_portrait, hp2))))"

text \<open>
  The footprint a panel record stands for before rotation: the axis-aligned rectangle
  around its centre with its pixel dimensions, as \<open>(x0, y0, x1, y1)\<close>. Two footprints
  overlap when they share interior points.
\<close>

definition footprint :: "panel \<Rightarrow> real \<times> real \<times> real \<times> real" where
  "footprint p =
     (let (cx, cy) = panel_center p; (w, h) = dimensions_pixels p
      in (cx - of_int w / 2, cy - of_int h / 2, cx + of_int w / 2, cy + of_int h / 2))"

definition overlap :: "real \<times> real \<times> real \<times> real \<Rightarrow> real \<times> real \<times> real \<times> real \<Rightarrow> bool" where
  "overlap a b =
     (case (a, b) of ((ax0, ay0, ax1, ay1), (bx0, by0, bx1, by1)) \<Rightarrow>
        ax0 < bx1 \<and> bx0 < ax1 \<and> ay0 < by1 \<and> by0 < ay1)"

section \<open>Duplicate suppression\<close>

text \<open>
  \<^verbatim>\<open>RooftopDetector._non_max_suppression\<close>. Two functions of the libraries are parameters:
  \<^verbatim>\<open>cv2.boundingRect\<close>, which gives the box \<open>(x, y, w, h)\<close> of a contour, and
  \<^verbatim>\<open>np.argsort\<close>, which gives indices that sort the areas in ascending order (its default
  algorithm does not promise an order among equal areas; \<open>sorts_ascending\<close> states what
  it does promise). The type of a contour is left open.
\<close>

type_synonym box = "int \<times> int \<times> int \<times> int"

definition box_area :: "box \<Rightarrow> int" where
  "box_area b = (case b of (x, y, w, h) \<Rightarrow> w * h)"

text \<open>
  The quotient \<^verbatim>\<open>(w * h) / areas[idxs[1:]]\<close> for the kept box \<open>i\<close> and one later box
  \<open>j\<close>: the area of the intersection over the area of the later box.
\<close>

definition box_overlap :: "box list \<Rightarrow> int list \<Rightarrow> nat \<Rightarrow> nat \<Rightarrow> real" where
  "box_overlap boxes areas i j =
     (case (boxes ! i, boxes ! j) of ((xi, yi, wi, hi), (xj, yj, wj, hj)) \<Rightarrow>
        let xx1 = max xi xj;
            yy1 = max yi yj;
            xx2 = min (xi + wi) (xj + wj);
            yy2 = min (yi + hi) (yj + hj);
            w = max 0 (xx2 - xx1);
            h = max 0 (yy2 - yy1)
        in of_int (w * h) / of_int (areas ! j))"

text \<open>
  The selection \<^verbatim>\<open>overlap <= overlap_thresh\<close>. numpy divides by a zero area without
  raising, and the quotient (infinite or not a number) fails the comparison.
\<close>

definition survives :: "box list \<Rightarrow> int list \<Rightarrow> real \<Rightarrow> nat \<Rightarrow> nat \<Rightarrow> bool" where
  "survives boxes areas overlap_thresh i j \<longleftrightarrow>
     areas ! j \<noteq> 0 \<and> box_overlap boxes areas i j \<le> overlap_thresh"

text \<open>The \<^verbatim>\<open>while\<close> loop; the result is the list \<^verbatim>\<open>keep\<close>.\<close>

fun nms_loop :: "box list \<Rightarrow> int list \<Rightarrow> real \<Rightarrow> nat list \<Rightarrow> nat list" where
  "nms_loop boxes areas overlap_thresh [] = []"
| "nms_loop boxes areas overlap_thresh (i # rest) =
     i # (if length rest = 0 then []
          else nms_loop boxes areas overlap_thresh
                 (filter (survives boxes areas overlap_thresh i) rest))"

definition non_max_suppression ::
    "('c \<Rightarrow> box) \<Rightarrow> (int list \<Rightarrow> nat list) \<Rightarrow> 'c list \<Rightarrow> real \<Rightarrow> 'c list" where
  "non_max_suppression boundingRect argsort contours overlap_thresh =
     (if length contours = 0 then []
      else
        let boxes = map boundingRect contours;
            areas = map box_area boxes;
            idxs = rev (argsort areas);
            keep = nms_loop boxes areas overlap_thresh idxs
        in map (\<lambda>i. contours ! i) keep)"

definition sorts_ascending :: "(int list \<Rightarrow> nat list) \<Rightarrow> int list \<Rightarrow> bool" where
  "sorts_ascending argsort xs \<longleftrightarrow>
     mset (argsort xs) = mset [0..<length xs] \<and> sorted (map (\<lambda>i. xs ! i) (argsort xs))"

section \<open>Obstacle detector\<close>

text \<open>
  \<^verbatim>\<open>SolarPanelOptimizer._detect_obstacles\<close>, from the grey image on (the value of
  \<^verbatim>\<open>gray\<close> after the first line of the method). The operations of the image library are
  modelled as it documents them for 8-bit images: \<^verbatim>\<open>cv2.threshold\<close> compares a pixel
  with the threshold rounded down, \<^verbatim>\<open>THRESH_BINARY\<close> giving 255 to the pixels above it
  and \<^verbatim>\<open>THRESH_BINARY_INV\<close> giving 255 to the pixels not above it; erosion and dilation
  take the minimum and the maximum over the structuring element, ignoring positions outside
  the image.
\<close>

type_synonym gray_image = "8 word list list"

definition zeros_like :: "gray_image \<Rightarrow> gray_image" where
  "zeros_like g = map (map (\<lambda>_. 0)) g"

text \<open>\<^verbatim>\<open>cv2.bitwise_and(gray, gray, mask=roof_mask)\<close>.\<close>

definition masked_copy :: "gray_image \<Rightarrow> gray_image \<Rightarrow> gray_image" where
  "masked_copy g m = map2 (map2 (\<lambda>v k. if k \<noteq> 0 then v else 0)) g m"

text \<open>\<^verbatim>\<open>gray[roof_mask > 0]\<close>, for arrays of one shape.\<close>

definition pixel_pairs :: "gray_image \<Rightarrow> gray_image \<Rightarrow> (8 word \<times> 8 word) list" where
  "pixel_pairs g m = concat (map2 zip g m)"

definition masked_pixels :: "gray_image \<Rightarrow> gray_image \<Rightarrow> 8 word list" where
  "masked_pixels g m = map fst (filter (\<lambda>(v, k). k > 0) (pixel_pairs g m))"

text \<open>\<^verbatim>\<open>np.mean\<close> and \<^verbatim>\<open>np.std\<close> (the population standard deviation).\<close>

definition np_mean :: "real list \<Rightarrow> real" where
  "np_mean xs = sum_list xs / real (length xs)"

definition np_std :: "real list \<Rightarrow> real" where
  "np_std xs = sqrt (np_mean (map (\<lambda>x. \<bar>x - np_mean xs\<bar> ^ 2) xs))"

definition threshold_binary :: "gray_image \<Rightarrow> real \<Rightarrow> gray_image" where
  "threshold_binary src thresh = map (map (\<lambda>v. if uint v > \<lfloor>thresh\<rfloor> then 255 else 0)) src"

definition threshold_binary_inv :: "gray_image \<Rightarrow> real \<Rightarrow> gray_image" where
  "threshold_binary_inv src thresh = map (map (\<lambda>v. if uint v > \<lfloor>thresh\<rfloor> then 0 else 255)) src"

definition bitwise_and :: "gray_image \<Rightarrow> gray_image \<Rightarrow> gray_image" where
  "bitwise_and a b = map2 (map2 (\<lambda>v k. v AND k)) a b"

definition bitwise_or :: "gray_image \<Rightarrow> gray_image \<Rightarrow> gray_image" where
  "bitwise_or a b = map2 (map2 (\<lambda>v k. v OR k)) a b"

text \<open>
  \<^verbatim>\<open>cv2.getStructuringElement(cv2.MORPH_ELLIPSE, (3, 3))\<close> and the same of size
  \<open>(5, 5)\<close>, as the offsets \<open>(dy, dx)\<close> of their set cells from the centre.
\<close>

definition MORPH_ELLIPSE_3 :: "(int \<times> int) list" where
  "MORPH_ELLIPSE_3 = [(-1, 0), (0, -1), (0, 0), (0, 1), (1, 0)]"

definition MORPH_ELLIPSE_5 :: "(int \<times> int) list" where
  "MORPH_ELLIPSE_5 =
     [(-2, 0),
      (-1, -2), (-1, -1), (-1, 0), (-1, 1), (-1, 2),
      (0, -2), (0, -1), (0, 0), (0, 1), (0, 2),
      (1, -2), (1, -1), (1, 0), (1, 1), (1, 2),
      (2, 0)]"

definition pixel_at :: "gray_image \<Rightarrow> int \<Rightarrow> int \<Rightarrow> 8 word option" where
  "pixel_at img y x =
     (if 0 \<le> y \<and> y < int (length img) \<and> 0 \<le> x \<and> x < int (length (img ! nat y))
      then Some (img ! nat y ! nat x) else None)"

definition morph ::
    "(8 word \<Rightarrow> 8 word \<Rightarrow> 8 word) \<Rightarrow> 8 word \<Rightarrow> (int \<times> int) list \<Rightarrow> gray_image \<Rightarrow> gray_image" where
  "morph f border se img =
     map (\<lambda>y. map (\<lambda>x. fold f
                          (List.map_filter (\<lambda>(dy, dx). pixel_at img (int y + dy) (int x + dx)) se)
                          border)
                [0..<length (img ! y)])
         [0..<length img]"

definition erode :: "(int \<times> int) list \<Rightarrow> gray_image \<Rightarrow> gray_image" where
  "erode se img = morph min 255 se img"

definition dilate :: "(int \<times> int) list \<Rightarrow> gray_image \<Rightarrow> gray_image" where
  "dilate se img = morph max 0 se img"

text \<open>Method 1 and method 2 of the detector: the dark and the bright spots.\<close>

definition dark_spots :: "gray_image \<Rightarrow> gray_image \<Rightarrow> real \<Rightarrow> real \<Rightarrow> gray_image" where
  "dark_spots roof_region roof_mask mean_intensity std_intensity =
     (let dark_threshold = max 20 (mean_intensity - 2 * std_intensity)
      in bitwise_and (threshold_binary_inv roof_region dark_threshold) roof_mask)"

definition bright_spots :: "gray_image \<Rightarrow> gray_image \<Rightarrow> real \<Rightarrow> real \<Rightarrow> gray_image" where
  "bright_spots roof_region roof_mask mean_intensity std_intensity =
     (let bright_threshold = min 235 (mean_intensity + 2 * std_intensity)
      in bitwise_and (threshold_binary roof_region bright_threshold) roof_mask)"

text \<open>
  The detector. Method 3 draws the small internal contours that \<^verbatim>\<open>cv2.findContours\<close>
  reports for the roof mask; the mask it draws is the parameter \<open>internal_features\<close>.
\<close>

definition detect_obstacles :: "(gray_image \<Rightarrow> gray_image) \<Rightarrow> gray_image \<Rightarrow> gray_image \<Rightarrow> gray_image" where
  "detect_obstacles internal_features gray roof_mask =
     (let obstacle_mask = zeros_like gray;
          roof_region = masked_copy gray roof_mask;
          roof_pixels = masked_pixels gray roof_mask
      in if length roof_pixels = 0 then obstacle_mask
         else
           let mean_intensity = np_mean (map (\<lambda>v. real (unat v)) roof_pixels);
               std_intensity = np_std (map (\<lambda>v. real (unat v)) roof_pixels);
               dark = dark_spots roof_region roof_mask mean_intensity std_intensity;
               bright = bright_spots roof_region roof_mask mean_intensity std_intensity;
               internal_mask = internal_features roof_mask;
               obstacle_mask1 = bitwise_or dark bright;
               obstacle_mask2 = bitwise_or obstacle_mask1 internal_mask;
               obstacle_mask3 = dilate MORPH_ELLIPSE_3 (erode MORPH_ELLIPSE_3 obstacle_mask2)
           in dilate MORPH_ELLIPSE_5 obstacle_mask3)"

text \<open>The number of marked pixels of a mask, and arrays of one shape.\<close>

definition mask_area :: "gray_image \<Rightarrow> nat" where
  "mask_area m = length (filter (\<lambda>p. p \<noteq> 0) (concat m))"

definition same_shape :: "gray_image \<Rightarrow> gray_image \<Rightarrow> bool" where
  "same_shape a b \<longleftrightarrow> list_all2 (\<lambda>r s. length r = length s) a b"

section \<open>Analysis loops\<close>

text \<open>
  The loop of \<^verbatim>\<open>analyze_image\<close> over the detected rooftops. The analysis of one rooftop
  (\<^verbatim>\<open>optimizer.analyze_rooftop(image, rooftop)\<close>) is a parameter: it returns an analysis
  or raises. There is no handler in the loop, so an exception leaves it.
\<close>

fun analyze_loop :: "('r \<Rightarrow> py_error + 'a) \<Rightarrow> 'r list \<Rightarrow> 'a list \<Rightarrow> py_error + 'a list" where
  "analyze_loop analyze_rooftop [] analyses = Inr analyses"
| "analyze_loop analyze_rooftop (rooftop # rest) analyses =
     (case analyze_rooftop rooftop of
        Inl e \<Rightarrow> Inl e
      | Inr analysis \<Rightarrow> analyze_loop analyze_rooftop rest (analyses @ [analysis]))"

text \<open>
  \<^verbatim>\<open>analyze_image\<close> from the detected rooftops on, without the files it writes: no
  rooftop gives the unsuccessful result, otherwise the analyses of all rooftops.
\<close>

datatype 'a image_result = NoRooftops | Analyses "'a list"

definition analyze_image :: "('r \<Rightarrow> py_error + 'a) \<Rightarrow> 'r list \<Rightarrow> py_error + 'a image_result" where
  "analyze_image analyze_rooftop rooftops =
     (if length rooftops = 0 then Inr NoRooftops
      else bind_res (analyze_loop analyze_rooftop rooftops []) (\<lambda>analyses.
           Inr (Analyses analyses)))"

text \<open>
  The report of \<^verbatim>\<open>analyze_roof_for_solar\<close> in \<^verbatim>\<open>SolarPanelOptimizer.py\<close>, with the fields
  the batch loop touches; \<open>building_id\<close> is absent until the loop sets it.
\<close>

record solar_report =
  suitability_rating :: rating
  report_num_panels :: int
  estimated_annual_energy_kwh :: real
  building_id :: "int option"

text \<open>
  The loop of \<^verbatim>\<open>batch_analyze_buildings\<close>: the body is inside \<^verbatim>\<open>try\<close>, and the handler
  prints and goes on with the next contour.
\<close>

fun batch_loop ::
    "('c \<Rightarrow> py_error + solar_report) \<Rightarrow> (nat \<times> 'c) list \<Rightarrow> solar_report list \<Rightarrow> solar_report list"
  where
  "batch_loop analyze_roof_for_solar [] results = results"
| "batch_loop analyze_roof_for_solar ((i, cnt) # rest) results =
     (case analyze_roof_for_solar cnt of
        Inl e \<Rightarrow> batch_loop analyze_roof_for_solar rest results
      | Inr analysis \<Rightarrow>
          batch_loop analyze_roof_for_solar rest
            (results @ [analysis\<lparr>building_id := Some (int i + 1)\<rparr>]))"

text \<open>
  \<^verbatim>\<open>results.sort(key=..., reverse=True)\<close> is stable: descending by energy, reports of
  equal energy in their order of arrival.
\<close>

definition batch_analyze_buildings ::
    "('c \<Rightarrow> py_error + solar_report) \<Rightarrow> 'c list \<Rightarrow> solar_report list" where
  "batch_analyze_buildings analyze_roof_for_solar contours =
     sort_key (\<lambda>r. - estimated_annual_energy_kwh r)
       (batch_loop analyze_roof_for_solar (enumerate 0 contours) [])"

section \<open>Sample inputs\<close>


text \<open>A square roof of 100 by 100 pixels at 0.15 m per pixel.\<close>

definition roof0 :: rooftop where
  "roof0 = \<lparr>roof_id = 1, contour = [(0, 0), (99, 0), (99, 99), (0, 99)], area_pixels = 9801,
     area_m2 = 220.5225, center = (49, 49),
     bounding_rect = \<lparr>rect_center = (49.5, 49.5), rect_width = 99, rect_height = 99,
       rect_angle = 90\<rparr>,
     box_points = [(0, 0), (99, 0), (99, 99), (0, 99)]\<rparr>"

text \<open>Outcomes of a per-rooftop analysis that raises for rooftop 1 and succeeds otherwise.\<close>

definition sample_analyze :: "int \<Rightarrow> py_error + int" where
  "sample_analyze roof = (if roof = 1 then Inl ValueError else Inr (10 * roof))"

definition sample_report :: "int \<Rightarrow> py_error + solar_report" where
  "sample_report cnt = (if cnt = 1 then Inl ValueError else
     Inr \<lparr>suitability_rating = Good, report_num_panels = 8, estimated_annual_energy_kwh = 4000,
          building_id = None\<rparr>)"

text \<open>A polygon test that finds every probe inside.\<close>

definition inside_everywhere :: polygon_test where
  "inside_everywhere cnt pt = 1"

text \<open>
  A usable mask of 5 rows and 8 columns, all usable, as the only object of a heap; the roof
  outline around it; and what the working copy of the first pass holds in the end.
\<close>

definition mask0 :: mask where
  "mask0 = [[255, 255, 255, 255, 255, 255, 255, 255],
            [255, 255, 255, 255, 255, 255, 255, 255],
            [255, 255, 255, 255, 255, 255, 255, 255],
            [255, 255, 255, 255, 255, 255, 255, 255],
            [255, 255, 255, 255, 255, 255, 255, 255]]"

definition heap0 :: heap where
  "heap0 = \<lparr>cells = (\<lambda>a. [])(0 := mask0), next_free = 1\<rparr>"

definition cnt0 :: "(int \<times> int) list" where
  "cnt0 = [(0, 0), (7, 0), (7, 4), (0, 4)]"

definition mask0_used :: mask where
  "mask0_used = [[0, 0, 255, 0, 0, 255, 255, 255],
                 [0, 0, 255, 0, 0, 255, 255, 255],
                 [0, 0, 255, 0, 0, 255, 255, 255],
                 [255, 255, 255, 255, 255, 255, 255, 255],
                 [255, 255, 255, 255, 255, 255, 255, 255]]"

text \<open>
  The optimizer built from 0.25 m per pixel and a panel of 0.5 m by 0.75 m: 2 by 3 pixels,
  with a spacing of one pixel.
\<close>

definition self0 :: optimizer where
  "self0 = \<lparr>config = merge_config [''pixel_to_meter'' \<mapsto> 0.25, ''panel_width_m'' \<mapsto> 0.5,
                 ''panel_height_m'' \<mapsto> 0.75],
             panel_width_px = 2, panel_height_px = 3\<rparr>"

text \<open>
  A bounding box of a point list and a stable argsort, as instances of the two library
  functions; a roof, a smaller roof inside it and a third one apart from both.
\<close>

definition boundingRect_points :: "(int \<times> int) list \<Rightarrow> box" where
  "boundingRect_points cnt =
     (case cnt of
        [] \<Rightarrow> (0, 0, 0, 0)
      | p # ps \<Rightarrow>
          let x0 = fold min (map fst ps) (fst p); x1 = fold max (map fst ps) (fst p);
              y0 = fold min (map snd ps) (snd p); y1 = fold max (map snd ps) (snd p)
          in (x0, y0, x1 - x0 + 1, y1 - y0 + 1))"

definition stable_argsort :: "int list \<Rightarrow> nat list" where
  "stable_argsort xs = map snd (sort_key fst (zip xs [0..<length xs]))"

definition roof_a :: "(int \<times> int) list" where "roof_a = [(0, 0), (9, 0), (9, 9), (0, 9)]"

definition roof_b :: "(int \<times> int) list" where "roof_b = [(2, 2), (5, 2), (5, 5), (2, 5)]"

definition roof_c :: "(int \<times> int) list" where "roof_c = [(20, 0), (25, 0), (25, 5), (20, 5)]"

text \<open>
  A grey image of 5 by 5 pixels of one intensity, and a roof mask that covers its inner
  3 by 3 pixels.
\<close>

definition uniform_image :: "8 word \<Rightarrow> gray_image" where
  "uniform_image v = [[v, v, v, v, v], [v, v, v, v, v], [v, v, v, v, v], [v, v, v, v, v],
                      [v, v, v, v, v]]"

definition roof5_mask :: gray_image where
  "roof5_mask = [[0, 0, 0, 0, 0],
                 [0, 255, 255, 255, 0],
                 [0, 255, 255, 255, 0],
                 [0, 255, 255, 255, 0],
                 [0, 0, 0, 0, 0]]"

section \<open>Proof devices\<close>

text \<open>
  The points \<^verbatim>\<open>_rate_suitability\<close> awards for the panel count, named on their own for
  the proofs; \<open>rate_suitability_score\<close> below ties them to the function.
\<close>

definition panel_points :: "int \<Rightarrow> int" where
  "panel_points n = (if n \<ge> 10 then 35 else if n \<ge> 5 then 25 else if n \<ge> 2 then 15 else 0)"

text \<open>
  The footprint of the candidate whose top-left corner is at row \<open>y\<close>, column \<open>x\<close>:
  the rectangle the scan tests and, on acceptance, zeroes.
\<close>

definition cand_fp :: "int \<Rightarrow> int \<Rightarrow> int \<times> int \<Rightarrow> real \<times> real \<times> real \<times> real" where
  "cand_fp pw ph pos = (case pos of (y, x) \<Rightarrow>
     (of_int x, of_int y, of_int (x + pw), of_int (y + ph)))"

section \<open>Energy model: results\<close>

lemma merge_get:
  "merge_config user k = (case user k of None \<Rightarrow> DEFAULT_CONFIG k | Some v \<Rightarrow> Some v)"
  by (simp add: merge_config_def map_add_def)

lemma merge_default_Some:
  "DEFAULT_CONFIG k = Some d \<Longrightarrow> \<exists>v. merge_config user k = Some v"
  by (simp add: merge_get split: option.splits)

lemma default_keys:
  "DEFAULT_CONFIG ''panel_width_m'' = Some 1"
  "DEFAULT_CONFIG ''panel_height_m'' = Some 1.7"
  "DEFAULT_CONFIG ''panel_power_w'' = Some 300"
  "DEFAULT_CONFIG ''latitude'' = Some 28.6139"
  "DEFAULT_CONFIG ''panel_efficiency'' = Some 0.2"
  by (simp_all add: DEFAULT_CONFIG_def)


lemma round_half_even_zero: "round_half_even 0 = 0"
  by (simp add: round_half_even_def)

lemma py_round_zero: "py_round 0 nd = 0"
  by (simp add: py_round_def round_half_even_zero)

text \<open>
  The source's own expression for every field, in the exact arithmetic of the model, for any
  configuration with the five keys.
\<close>

lemma calculate_energy_fields:
  assumes "cfg ''panel_width_m'' = Some pw" and "cfg ''panel_height_m'' = Some ph"
    and "cfg ''panel_power_w'' = Some watts" and "cfg ''latitude'' = Some lat"
    and "cfg ''panel_efficiency'' = Some eff"
  shows "calculate_energy cfg n =
     Inr \<lparr>system_capacity_kw = py_round ((of_int n * watts) / 1000) 2,
          total_panel_area_m2 = py_round (of_int n * (pw * ph)) 2,
          estimated_annual_kwh =
            py_round (of_int n * (pw * ph) * (2200 - \<bar>lat\<bar> * 8) * eff * 0.86) 0,
          estimated_monthly_kwh =
            py_round (of_int n * (pw * ph) * (2200 - \<bar>lat\<bar> * 8) * eff * 0.86 / 12) 0,
          estimated_daily_kwh =
            py_round (of_int n * (pw * ph) * (2200 - \<bar>lat\<bar> * 8) * eff * 0.86 / 365) 1,
          co2_offset_kg_year =
            py_round (of_int n * (pw * ph) * (2200 - \<bar>lat\<bar> * 8) * eff * 0.86 * 0.82) 0\<rparr>"
  unfolding calculate_energy_def bind_res_def cfg_get_def Let_def using assms by simp









text \<open>
  C8: for every configuration an optimizer can hold (the defaults overridden by any caller's
  entries), the estimate for zero panels is zero in every field: capacity, total panel area,
  annual, monthly and daily yield, and the carbon-dioxide offset.
\<close>

theorem calculate_energy_zero:
  "calculate_energy (merge_config user) 0 =
     Inr \<lparr>system_capacity_kw = 0, total_panel_area_m2 = 0, estimated_annual_kwh = 0,
          estimated_monthly_kwh = 0, estimated_daily_kwh = 0, co2_offset_kg_year = 0\<rparr>"
proof -
  let ?c = "merge_config user"
  obtain pw where 1: "?c ''panel_width_m'' = Some pw"
    using merge_default_Some default_keys by blast
  obtain ph where 2: "?c ''panel_height_m'' = Some ph"
    using merge_default_Some default_keys by blast
  obtain watts where 3: "?c ''panel_power_w'' = Some watts"
    using merge_default_Some default_keys by blast
  obtain lat where 4: "?c ''latitude'' = Some lat"
    using merge_default_Some default_keys by blast
  obtain eff where 5: "?c ''panel_efficiency'' = Some eff"
    using merge_default_Some default_keys by blast
  show ?thesis
    unfolding calculate_energy_fields [OF 1 2 3 4 5] by (simp add: py_round_zero)
qed

section \<open>Suitability scorer: results\<close>

lemma aspect_ratio_total: "\<exists>q. aspect_ratio b = Inr q"
  by (simp add: aspect_ratio_def py_truediv_def)

text \<open>The score is a base that does not depend on the panel count, plus the panel points.\<close>

lemma rate_suitability_score:
  "\<exists>base. \<forall>k. \<exists>t. rate_suitability r k oc = Inr t \<and> score t = base + panel_points k"
proof -
  obtain q where q: "aspect_ratio (bounding_rect r) = Inr q"
    using aspect_ratio_total by blast
  define A :: int where
    "A = (if area_m2 r \<ge> 50 then 35 else if area_m2 r \<ge> 30 then 25
          else if area_m2 r \<ge> 20 then 15 else 0)"
  define S :: int where
    "S = (if 0.8 \<le> q \<and> q \<le> 1.5 then 15 else if 0.5 \<le> q \<and> q \<le> 2.0 then 10 else 0)"
  define ob :: int where
    "ob = (if oc = 0 then 15 else if oc \<le> 2 then 10 else if oc \<le> 5 then 5 else 0)"
  have "\<exists>t. rate_suitability r k oc = Inr t \<and> score t = 0 + A + panel_points k + S + ob"
    for k
  proof -
    define c1 where "c1 \<longleftrightarrow> area_m2 r \<ge> 50"
    define c2 where "c2 \<longleftrightarrow> area_m2 r \<ge> 30"
    define c3 where "c3 \<longleftrightarrow> area_m2 r \<ge> 20"
    define d1 where "d1 \<longleftrightarrow> 0.8 \<le> q \<and> q \<le> 1.5"
    define d2 where "d2 \<longleftrightarrow> 0.5 \<le> q \<and> q \<le> 2.0"
    define e1 where "e1 \<longleftrightarrow> oc = 0"
    define e2 where "e2 \<longleftrightarrow> oc \<le> 2"
    define e3 where "e3 \<longleftrightarrow> oc \<le> 5"
    define k1 where "k1 \<longleftrightarrow> k \<ge> 10"
    define k2 where "k2 \<longleftrightarrow> k \<ge> 5"
    define k3 where "k3 \<longleftrightarrow> k \<ge> 2"
    show ?thesis
      unfolding rate_suitability_def q bind_res_def sum.case Let_def
        panel_points_def A_def S_def ob_def
      unfolding
        c1_def [symmetric] c2_def [symmetric] c3_def [symmetric] d1_def [symmetric]
        d2_def [symmetric] e1_def [symmetric] e2_def [symmetric] e3_def [symmetric]
        k1_def [symmetric] k2_def [symmetric] k3_def [symmetric]
      by simp
  qed
  then have "\<forall>k. \<exists>t. rate_suitability r k oc = Inr t \<and> score t = (A + S + ob) + panel_points k"
    by (simp add: add.commute add.left_commute)
  then show ?thesis by (rule exI)
qed

lemma panel_points_mono: "n \<le> m \<Longrightarrow> panel_points n \<le> panel_points m"
  by (simp add: panel_points_def)

text \<open>
  C7: with the rooftop (area and bounding rectangle) and the obstacle count fixed, the scorer
  returns a score for both panel counts, and the score for the larger count is not below the
  score for the smaller one.
\<close>

theorem rate_suitability_monotone:
  assumes "n \<le> m"
  shows "\<exists>a b. rate_suitability r n oc = Inr a \<and> rate_suitability r m oc = Inr b
           \<and> score a \<le> score b"
proof -
  obtain base where
    b: "\<forall>k. \<exists>t. rate_suitability r k oc = Inr t \<and> score t = base + panel_points k"
    using rate_suitability_score by blast
  obtain a where a: "rate_suitability r n oc = Inr a" "score a = base + panel_points n"
    using b by blast
  obtain c where c: "rate_suitability r m oc = Inr c" "score c = base + panel_points m"
    using b by blast
  have "score a \<le> score c"
    using a(2) c(2) panel_points_mono [OF assms] by simp
  with a(1) c(1) show ?thesis by blast
qed

lemma rate_suitability_roof0_4:
  "rate_suitability roof0 4 0 =
     Inr \<lparr>score = 80, rating = Excellent, max_score = 100, obstacles_found = 0\<rparr>"
  by (simp add: rate_suitability_def roof0_def aspect_ratio_def py_truediv_def bind_res_def)

lemma rate_suitability_roof0_5:
  "rate_suitability roof0 5 0 =
     Inr \<lparr>score = 90, rating = Excellent, max_score = 100, obstacles_found = 0\<rparr>"
  by (simp add: rate_suitability_def roof0_def aspect_ratio_def py_truediv_def bind_res_def)

theorem rate_suitability_monotone_witness:
  "(4::int) \<le> 5 \<and>
   (\<exists>a b. rate_suitability roof0 4 0 = Inr a \<and> rate_suitability roof0 5 0 = Inr b
      \<and> score a = 80 \<and> score b = 90 \<and> score a \<le> score b)"
  using rate_suitability_monotone [of 4 5 roof0 0]
  by (simp add: rate_suitability_roof0_4 rate_suitability_roof0_5)

text \<open>
  C10: the scorer returns a score and a rating for every rooftop, panel count and obstacle
  count; it never raises. For a bounding rectangle of height 0 the quotient is not evaluated
  and the aspect ratio is 1.
\<close>

theorem rate_suitability_total:
  "(\<exists>s. rate_suitability r n oc = Inr s) \<and>
   aspect_ratio (b\<lparr>rect_height := 0\<rparr>) = Inr 1"
  using rate_suitability_score [of r oc] by (auto simp: aspect_ratio_def)

section \<open>Analysis loops: results\<close>

text \<open>In \<^verbatim>\<open>analyze_image\<close> one failing rooftop ends the loop with its exception.\<close>

lemma analyze_loop_aborts:
  "r \<in> set rs \<Longrightarrow> f r = Inl e \<Longrightarrow> \<exists>e'. analyze_loop f rs acc = Inl e'"
  by (induction rs arbitrary: acc) (auto split: sum.splits)

lemma analyze_loop_all:
  "(\<forall>r\<in>set rs. \<exists>a. f r = Inr a) \<Longrightarrow> analyze_loop f rs acc = Inr (acc @ map (\<lambda>r. projr (f r)) rs)"
  by (induction rs arbitrary: acc) (auto split: sum.splits)

lemma analyze_image_aborts:
  "r \<in> set rs \<Longrightarrow> f r = Inl e \<Longrightarrow> \<exists>e'. analyze_image f rs = Inl e'"
  using analyze_loop_aborts [of r rs f e "[]"]
  by (auto simp: analyze_image_def bind_res_def)

text \<open>
  In \<^verbatim>\<open>batch_analyze_buildings\<close> the failing contours are skipped: the result holds the
  reports of exactly the contours whose analysis returned, each with its building number.
\<close>

lemma batch_loop_eq:
  "batch_loop f ics acc =
     acc @ concat (map (\<lambda>(i, c). case f c of Inl e \<Rightarrow> []
                          | Inr a \<Rightarrow> [a\<lparr>building_id := Some (int i + 1)\<rparr>]) ics)"
  by (induction ics arbitrary: acc) (auto split: sum.splits)

lemma batch_loop_set:
  "set (batch_loop f ics []) =
     {a\<lparr>building_id := Some (int i + 1)\<rparr> |i c a. (i, c) \<in> set ics \<and> f c = Inr a}"
    (is "?L = ?R")
proof (rule set_eqI, rule iffI)
  fix x
  assume "x \<in> ?L"
  then obtain i c where ic: "(i, c) \<in> set ics"
    and x: "x \<in> set (case f c of Inl e \<Rightarrow> []
                        | Inr a \<Rightarrow> [a\<lparr>building_id := Some (int i + 1)\<rparr>])"
    unfolding batch_loop_eq by auto
  from x obtain a where "f c = Inr a" and "x = a\<lparr>building_id := Some (int i + 1)\<rparr>"
    by (cases "f c") simp_all
  with ic show "x \<in> ?R" by blast
next
  fix x
  assume "x \<in> ?R"
  then obtain i c a where ic: "(i, c) \<in> set ics" and fc: "f c = Inr a"
    and x: "x = a\<lparr>building_id := Some (int i + 1)\<rparr>"
    by blast
  have "x \<in> set (case f c of Inl e \<Rightarrow> []
                  | Inr a \<Rightarrow> [a\<lparr>building_id := Some (int i + 1)\<rparr>])"
    by (simp add: fc x)
  with ic show "x \<in> ?L"
    unfolding batch_loop_eq by force
qed

lemma batch_analyze_buildings_set:
  "set (batch_analyze_buildings f cs) =
     {a\<lparr>building_id := Some (int i + 1)\<rparr> |i a. i < length cs \<and> f (cs ! i) = Inr a}"
proof -
  have "{a\<lparr>building_id := Some (int i + 1)\<rparr> |i c a. (i, c) \<in> set (enumerate 0 cs) \<and> f c = Inr a}
      = {a\<lparr>building_id := Some (int i + 1)\<rparr> |i a. i < length cs \<and> f (cs ! i) = Inr a}"
    by (simp add: in_set_enumerate_eq)
  then show ?thesis
    by (simp add: batch_analyze_buildings_def batch_loop_set)
qed

lemma batch_analyze_buildings_sample:
  "batch_analyze_buildings sample_report [1, 2] =
     [\<lparr>suitability_rating = Good, report_num_panels = 8, estimated_annual_energy_kwh = 4000,
       building_id = Some 2\<rparr>]"
  by (simp add: batch_analyze_buildings_def sample_report_def)

text \<open>
  C3 fails on \<^verbatim>\<open>analyze_image\<close>: with two rooftops of which the first one's analysis
  raises, the loop is left with that exception and no analysis of the second rooftop is
  returned. The batch loop of \<^verbatim>\<open>SolarPanelOptimizer.py\<close> skips the failure on the same
  input (\<open>batch_analyze_buildings_sample\<close>).
\<close>

theorem analyze_image_aborts_sample:
  "analyze_image sample_analyze [1, 2] = Inl ValueError"
  by (simp add: analyze_image_def sample_analyze_def bind_res_def)

section \<open>Panel placement: results\<close>

subsection \<open>Only the working copy is written\<close>

lemma place_candidate_frame:
  "a \<noteq> av \<Longrightarrow> cells (st_heap (place_candidate ppt p2m av pw ph ang cnt y x st)) a = cells (st_heap st) a"
  by (simp add: place_candidate_def Let_def heap_write_def)

lemma place_candidate_next_free:
  "next_free (st_heap (place_candidate ppt p2m av pw ph ang cnt y x st)) = next_free (st_heap st)"
  by (simp add: place_candidate_def Let_def heap_write_def)

lemma scan_columns_frame:
  "a \<noteq> av \<Longrightarrow> cells (st_heap (scan_columns ppt p2m av pw ph ang cnt y xs st)) a = cells (st_heap st) a"
  by (induction xs arbitrary: st) (simp_all add: place_candidate_frame)

lemma scan_columns_next_free:
  "next_free (st_heap (scan_columns ppt p2m av pw ph ang cnt y xs st)) = next_free (st_heap st)"
  by (induction xs arbitrary: st) (simp_all add: place_candidate_next_free)

lemma scan_rows_frame:
  "a \<noteq> av \<Longrightarrow> cells (snd (scan_rows ppt p2m av pw ph ang cnt w sx ys st)) a = cells (st_heap st) a"
  by (induction ys arbitrary: st) (simp_all add: scan_columns_frame split: sum.splits)

lemma scan_rows_next_free:
  "next_free (snd (scan_rows ppt p2m av pw ph ang cnt w sx ys st)) = next_free (st_heap st)"
  by (induction ys arbitrary: st) (simp_all add: scan_columns_next_free split: sum.splits)

lemma pass_frame:
  assumes "a < next_free hp"
  shows "cells (snd (place_panels_with_orientation ppt self hp um pw ph ang cnt)) a = cells hp a"
  using assms
  by (auto simp: place_panels_with_orientation_def ndarray_copy_def Let_def scan_rows_frame
      split: sum.splits prod.splits)

lemma pass_next_free:
  "next_free hp \<le> next_free (snd (place_panels_with_orientation ppt self hp um pw ph ang cnt))"
  by (auto simp: place_panels_with_orientation_def ndarray_copy_def Let_def scan_rows_next_free
      split: sum.splits prod.splits)

lemma optimized_frame:
  assumes "a < next_free hp"
  shows "cells (snd (place_panels_optimized ppt self hp um ang cnt)) a = cells hp a"
proof -
  let ?r1 = "place_panels_with_orientation ppt self hp um (panel_width_px self) (panel_height_px self) ang cnt"
  let ?r2 = "place_panels_with_orientation ppt self (snd ?r1) um (panel_height_px self) (panel_width_px self) ang cnt"
  have 1: "cells (snd ?r1) a = cells hp a" using assms by (rule pass_frame)
  have "a < next_free (snd ?r1)" using assms pass_next_free [of hp ppt self um] by (meson less_le_trans)
  then have 2: "cells (snd ?r2) a = cells (snd ?r1) a" by (rule pass_frame)
  have "snd (place_panels_optimized ppt self hp um ang cnt) = snd ?r1
      \<or> snd (place_panels_optimized ppt self hp um ang cnt) = snd ?r2"
    by (simp add: place_panels_optimized_def split: prod.splits sum.splits)
  then show ?thesis
  proof
    assume e: "snd (place_panels_optimized ppt self hp um ang cnt) = snd ?r1"
    show ?thesis unfolding e by (rule 1)
  next
    assume e: "snd (place_panels_optimized ppt self hp um ang cnt) = snd ?r2"
    show ?thesis unfolding e by (rule trans [OF 2 1])
  qed
qed

subsection \<open>Evaluation on the sample mask\<close>

lemma self0_init: "init_optimizer [''pixel_to_meter'' \<mapsto> 0.25, ''panel_width_m'' \<mapsto> 0.5,
                 ''panel_height_m'' \<mapsto> 0.75] = Inr self0"
  by (simp add: init_optimizer_def self0_def bind_res_def cfg_get_def merge_get py_truediv_def py_int_def Let_def)

lemma self0_keys: "config self0 ''panel_spacing_m'' = Some 0.1" "config self0 ''pixel_to_meter'' = Some 0.25"
  by (simp_all add: self0_def merge_get DEFAULT_CONFIG_def)

lemma ranges: "py_range 0 2 4 = Inr [0]" "py_range 0 6 3 = Inr [0, 3]" "py_range 0 3 3 = Inr [0]" "py_range 0 5 4 = Inr [0, 4]"
  by (simp_all add: py_range_def upt_conv_Cons)

lemma spacing0: "bind_res (cfg_get (config self0) ''panel_spacing_m'') (\<lambda>sp.
           bind_res (cfg_get (config self0) ''pixel_to_meter'') (\<lambda>p2m.
           bind_res (py_truediv sp p2m) (\<lambda>q. Inr (p2m, max 1 (py_int q))))) = Inr (0.25, 1)"
  by (simp add: bind_res_def cfg_get_def self0_keys py_truediv_def py_int_def)

lemmas pass_eval_simps =
  place_candidate_def region_def py_slice_def slice_bound_def Let_def
  check_corners_in_contour_def inside_everywhere_def heap_write_def zero_region_def
  py_slice_map_def

subsection \<open>Accepted candidates lie on the stride grid\<close>

lemma round_half_even_of_int: "round_half_even (of_int z) = z"
  by (simp add: round_half_even_def)

lemma py_round_half: "py_round (of_int x + of_int w / 2) 2 = of_int x + of_int w / 2"
proof -
  have "(of_int x + of_int w / 2) * 10 ^ 2 = (of_int (100 * x + 50 * w) :: real)"
    by simp
  then have "py_round (of_int x + of_int w / 2) 2 = of_int (100 * x + 50 * w) / 10 ^ 2"
    unfolding py_round_def by (simp only: round_half_even_of_int)
  then show ?thesis by simp
qed

lemma footprint_create:
  "footprint (create_panel_geometry p2m pid x y w h ang) = cand_fp w h (y, x)"
  by (simp add: footprint_def create_panel_geometry_def Let_def py_round_half cand_fp_def)

lemma place_candidate_panels:
  "st_panels (place_candidate ppt p2m av pw ph ang cnt y x st) = st_panels st \<or>
   (\<exists>p. st_panels (place_candidate ppt p2m av pw ph ang cnt y x st) = st_panels st @ [p]
        \<and> footprint p = cand_fp pw ph (y, x))"
  by (simp add: place_candidate_def Let_def footprint_create)

lemma fold_footprints:
  "distinct ps \<Longrightarrow>
   \<exists>qs. map footprint (st_panels (fold (\<lambda>(y, x). place_candidate ppt p2m av pw ph ang cnt y x) ps st))
          = map footprint (st_panels st) @ map (cand_fp pw ph) qs
        \<and> distinct qs \<and> set qs \<subseteq> set ps"
proof (induction ps arbitrary: st)
  case Nil
  show ?case by (rule exI [of _ "[]"]) simp
next
  case (Cons pos ps)
  obtain y x where pos: "pos = (y, x)" by (cases pos)
  let ?st1 = "place_candidate ppt p2m av pw ph ang cnt y x st"
  from Cons.prems have d: "distinct ps" and n: "pos \<notin> set ps" by simp_all
  from Cons.IH [OF d, of ?st1] obtain qs where
    qs: "map footprint (st_panels (fold (\<lambda>(y, x). place_candidate ppt p2m av pw ph ang cnt y x) ps ?st1))
          = map footprint (st_panels ?st1) @ map (cand_fp pw ph) qs"
    and dq: "distinct qs" and sq: "set qs \<subseteq> set ps" by blast
  from place_candidate_panels [of ppt p2m av pw ph ang cnt y x st]
  show ?case
  proof
    assume "st_panels ?st1 = st_panels st"
    with qs dq sq show ?thesis
      by (intro exI [of _ qs]) (auto simp: pos)
  next
    assume "\<exists>p. st_panels ?st1 = st_panels st @ [p] \<and> footprint p = cand_fp pw ph (y, x)"
    then obtain p where p: "st_panels ?st1 = st_panels st @ [p]"
      and fp: "footprint p = cand_fp pw ph (y, x)" by blast
    from n sq have "pos \<notin> set qs" by blast
    with qs dq sq p fp show ?thesis
      by (intro exI [of _ "pos # qs"]) (auto simp: pos)
  qed
qed

lemma scan_columns_fold:
  "scan_columns ppt p2m av pw ph ang cnt y xs st
     = fold (\<lambda>(y, x). place_candidate ppt p2m av pw ph ang cnt y x) (map (Pair y) xs) st"
  by (induction xs arbitrary: st) simp_all

lemma scan_rows_fold:
  "py_range 0 (w - pw) sx = Inr xs \<Longrightarrow>
   scan_rows ppt p2m av pw ph ang cnt w sx ys st =
     (let st' = fold (\<lambda>(y, x). place_candidate ppt p2m av pw ph ang cnt y x) (List.product ys xs) st
      in (Inr (st_panels st'), st_heap st'))"
  by (induction ys arbitrary: st) (simp_all add: scan_columns_fold Let_def)

lemma py_range_elems:
  "py_range 0 stop step = Inr xs \<Longrightarrow> distinct xs \<and> (\<forall>x\<in>set xs. step dvd x)"
  by (auto simp: py_range_def distinct_map inj_on_def split: if_splits)

lemma py_range_total: "step \<noteq> 0 \<Longrightarrow> \<exists>xs. py_range a b step = Inr xs"
  by (simp add: py_range_def)

lemma grid_separated:
  assumes "step dvd a" "step dvd b" "a \<noteq> b" "d < step" "0 \<le> (d::int)"
  shows "\<not> (real_of_int a < of_int (b + d) \<and> real_of_int b < of_int (a + d))"
proof -
  have "step dvd (a - b)" using assms(1,2) by (rule dvd_diff)
  moreover have "a - b \<noteq> 0" using assms(3) by simp
  ultimately have "\<bar>step\<bar> \<le> \<bar>a - b\<bar>" by (rule dvd_imp_le_int [rotated])
  then have "d < \<bar>a - b\<bar>" using assms(4) by linarith
  then have r: "\<not> (a < b + d \<and> b < a + d)" by linarith
  have 1: "real_of_int a < of_int (b + d) \<longleftrightarrow> a < b + d" by (rule of_int_less_iff)
  have 2: "real_of_int b < of_int (a + d) \<longleftrightarrow> b < a + d" by (rule of_int_less_iff)
  show ?thesis unfolding 1 2 by (rule r)
qed

lemma cand_fp_separated:
  assumes "sx dvd x" "sx dvd x'" "sy dvd y" "sy dvd y'" "(y, x) \<noteq> (y', x')"
    and "pw < sx" "0 \<le> pw" "ph < sy" "0 \<le> ph"
  shows "\<not> overlap (cand_fp pw ph (y, x)) (cand_fp pw ph (y', x'))"
proof (cases "x = x'")
  case False
  from grid_separated [OF assms(1,2) False assms(6,7)] show ?thesis
    unfolding overlap_def cand_fp_def prod.case by blast
next
  case True
  with assms(5) have "y \<noteq> y'" by simp
  from grid_separated [OF assms(3,4) this assms(8,9)] show ?thesis
    unfolding overlap_def cand_fp_def prod.case by blast
qed

lemma pass_footprints:
  assumes "0 \<le> pw" "0 \<le> ph"
    and res: "place_panels_with_orientation ppt self hp um pw ph ang cnt = (Inr panels, hp')"
  shows "\<exists>sx sy qs. pw < sx \<and> ph < sy \<and> map footprint panels = map (cand_fp pw ph) qs
            \<and> distinct qs \<and> (\<forall>(y, x) \<in> set qs. sx dvd x \<and> sy dvd y)"
proof -
  obtain h w where hw: "shape (cells hp um) = (h, w)" by (cases "shape (cells hp um)")
  obtain p2m spacing where sp:
    "bind_res (cfg_get (config self) ''panel_spacing_m'') (\<lambda>sp.
       bind_res (cfg_get (config self) ''pixel_to_meter'') (\<lambda>p2m.
       bind_res (py_truediv sp p2m) (\<lambda>q. Inr (p2m, max 1 (py_int q))))) = Inr (p2m, spacing)"
    and s1: "1 \<le> spacing"
    using res
    by (auto simp: place_panels_with_orientation_def hw bind_res_def split: sum.splits)
  let ?sx = "pw + spacing" and ?sy = "ph + spacing"
  obtain av hp1 where cp: "ndarray_copy hp um = (av, hp1)" by (cases "ndarray_copy hp um")
  let ?st0 = "\<lparr>st_heap = hp1, st_panels = [], st_panel_id = 1\<rparr>"
  obtain ys where ys: "py_range 0 (h - ph) ?sy = Inr ys"
    and sc: "scan_rows ppt p2m av pw ph ang cnt w ?sx ys ?st0 = (Inr panels, hp')"
    using res
    by (auto simp: place_panels_with_orientation_def hw sp cp Let_def split: sum.splits)
  have sx0: "?sx \<noteq> 0" using assms(1) s1 by simp
  then obtain xs where xs: "py_range 0 (w - pw) ?sx = Inr xs"
    using py_range_total by blast
  let ?ps = "List.product ys xs"
  have d: "distinct ?ps"
    using py_range_elems [OF ys] py_range_elems [OF xs] by (simp add: distinct_product)
  from fold_footprints [OF d, of ppt p2m av pw ph ang cnt ?st0]
  obtain qs where q: "map footprint (st_panels (fold (\<lambda>(y, x). place_candidate ppt p2m av pw ph ang cnt y x) ?ps ?st0))
       = map (cand_fp pw ph) qs" and dq: "distinct qs" and sq: "set qs \<subseteq> set ?ps"
    by auto
  have "panels = st_panels (fold (\<lambda>(y, x). place_candidate ppt p2m av pw ph ang cnt y x) ?ps ?st0)"
    using sc unfolding scan_rows_fold [OF xs] by (simp add: Let_def)
  with q have m: "map footprint panels = map (cand_fp pw ph) qs" by simp
  have g: "\<forall>(y, x) \<in> set qs. ?sx dvd x \<and> ?sy dvd y"
    using sq py_range_elems [OF ys] py_range_elems [OF xs] by auto
  have "pw < ?sx" "ph < ?sy" using s1 by simp_all
  with m dq g show ?thesis by blast
qed

lemma pass_landscape0:
  "place_panels_with_orientation inside_everywhere self0 heap0 0 2 3 0 cnt0 =
     (Inr [create_panel_geometry 0.25 1 0 0 2 3 0, create_panel_geometry 0.25 2 3 0 2 3 0],
      \<lparr>cells = ((\<lambda>a. [])(0 := mask0))(1 := mask0_used), next_free = 2\<rparr>)"
  unfolding place_panels_with_orientation_def spacing0
  apply (simp add: heap0_def mask0_def shape_def ndarray_copy_def ranges Let_def)
  apply (simp add: pass_eval_simps mask0_used_def)
  done

lemma pass_portrait0:
  "fst (place_panels_with_orientation inside_everywhere self0 heap0 0 3 2 0 cnt0) =
     Inr [create_panel_geometry 0.25 1 0 0 3 2 0, create_panel_geometry 0.25 2 4 0 3 2 0]"
  unfolding place_panels_with_orientation_def spacing0
  apply (simp add: heap0_def mask0_def shape_def ndarray_copy_def ranges Let_def)
  apply (simp add: pass_eval_simps)
  done

lemma pass_disjoint:
  assumes "0 \<le> pw" and "0 \<le> ph"
    and "place_panels_with_orientation ppt self hp um pw ph ang cnt = (Inr panels, hp')"
    and "i < j" and "j < length panels"
  shows "\<not> overlap (footprint (panels ! i)) (footprint (panels ! j))"
proof -
  from pass_footprints [OF assms(1-3)] obtain sx sy qs where
    sx: "pw < sx" and sy: "ph < sy" and m: "map footprint panels = map (cand_fp pw ph) qs"
    and dq: "distinct qs" and g: "\<forall>(y, x) \<in> set qs. sx dvd x \<and> sy dvd y" by blast
  from m have len: "length qs = length panels" by (metis length_map)
  have i: "i < length panels" using assms(4,5) by simp
  have fi: "footprint (panels ! i) = cand_fp pw ph (qs ! i)"
    using m i len by (metis nth_map)
  have fj: "footprint (panels ! j) = cand_fp pw ph (qs ! j)"
    using m assms(5) len by (metis nth_map)
  obtain y x where pi: "qs ! i = (y, x)" by (cases "qs ! i")
  obtain y' x' where pj: "qs ! j = (y', x')" by (cases "qs ! j")
  have ne: "(y, x) \<noteq> (y', x')"
    using dq assms(4,5) i len pi pj by (metis nth_eq_iff_index_eq less_irrefl)
  have "(y, x) \<in> set qs" "(y', x') \<in> set qs"
    using i assms(5) len pi pj by (metis nth_mem)+
  with g have "sx dvd x" "sx dvd x'" "sy dvd y" "sy dvd y'" by auto
  from cand_fp_separated [OF this ne sx assms(1) sy assms(2)]
  show ?thesis by (simp add: fi fj pi pj)
qed


lemma optimized_result_is_a_pass:
  assumes "place_panels_optimized ppt self hp um ang cnt = (Inr panels, hp')"
  shows "\<exists>hp0 hp1 pw ph.
           place_panels_with_orientation ppt self hp0 um pw ph ang cnt = (Inr panels, hp1)
         \<and> (pw, ph) \<in> {(panel_width_px self, panel_height_px self),
                          (panel_height_px self, panel_width_px self)}"
proof -
  let ?W = "panel_width_px self" and ?H = "panel_height_px self"
  obtain r1 hp1 where 1: "place_panels_with_orientation ppt self hp um ?W ?H ang cnt = (r1, hp1)"
    by (cases "place_panels_with_orientation ppt self hp um ?W ?H ang cnt")
  obtain l where l: "r1 = Inr l"
    using assms 1 by (cases r1) (simp_all add: place_panels_optimized_def)
  obtain r2 hp2 where 2: "place_panels_with_orientation ppt self hp1 um ?H ?W ang cnt = (r2, hp2)"
    by (cases "place_panels_with_orientation ppt self hp1 um ?H ?W ang cnt")
  obtain p where p: "r2 = Inr p"
    using assms 1 2 l by (cases r2) (simp_all add: place_panels_optimized_def)
  have "panels = l \<or> panels = p"
    using assms 1 2 l p by (simp add: place_panels_optimized_def split: if_splits)
  then show ?thesis
  proof
    assume "panels = l"
    with 1 l show ?thesis by blast
  next
    assume "panels = p"
    with 2 p show ?thesis by blast
  qed
qed

lemma optimized_disjoint:
  assumes "0 \<le> panel_width_px self" and "0 \<le> panel_height_px self"
    and "place_panels_optimized ppt self hp um ang cnt = (Inr panels, hp')"
    and "i < j" and "j < length panels"
  shows "\<not> overlap (footprint (panels ! i)) (footprint (panels ! j))"
proof -
  from optimized_result_is_a_pass [OF assms(3)] obtain hp0 hp1 pw ph where
    r: "place_panels_with_orientation ppt self hp0 um pw ph ang cnt = (Inr panels, hp1)"
    and d: "(pw, ph) \<in> {(panel_width_px self, panel_height_px self),
                          (panel_height_px self, panel_width_px self)}"
    by blast
  from d assms(1,2) have "0 \<le> pw" "0 \<le> ph" by auto
  from pass_disjoint [OF this r assms(4,5)] show ?thesis .
qed

text \<open>
  C4: when the panel dimensions are not negative, any two panels that one placement pass
  returns have footprints that do not overlap, whatever the mask, the roof angle, the roof
  contour and the polygon test. Both orientations are instances, and the result of
  \<^verbatim>\<open>_place_panels_optimized\<close>, which is the result of one of its two passes, has the
  property too (\<open>optimized_disjoint\<close>).
\<close>

theorem placement_footprints_disjoint:
  assumes "0 \<le> pw" and "0 \<le> ph"
    and "place_panels_with_orientation ppt self hp um pw ph ang cnt = (Inr panels, hp')"
    and "i < j" and "j < length panels"
  shows "\<not> overlap (footprint (panels ! i)) (footprint (panels ! j))"
  using assms by (rule pass_disjoint)

theorem placement_footprints_disjoint_witness:
  "(0::int) \<le> 2 \<and> (0::int) \<le> 3 \<and>
   (\<exists>panels hp'. place_panels_with_orientation inside_everywhere self0 heap0 0 2 3 0 cnt0
         = (Inr panels, hp')
      \<and> (0::nat) < 1 \<and> 1 < length panels
      \<and> map footprint panels = [(0, 0, 2, 3), (3, 0, 5, 3)]
      \<and> \<not> overlap (footprint (panels ! 0)) (footprint (panels ! 1)))"
proof -
  let ?ps = "[create_panel_geometry 0.25 1 0 0 2 3 0, create_panel_geometry 0.25 2 3 0 2 3 0]"
  have "\<not> overlap (footprint (?ps ! 0)) (footprint (?ps ! 1))"
    by (rule placement_footprints_disjoint [OF _ _ pass_landscape0]) simp_all
  moreover have "map footprint ?ps = [(0, 0, 2, 3), (3, 0, 5, 3)]"
    by (simp add: footprint_create cand_fp_def)
  ultimately show ?thesis
    using pass_landscape0 by simp
qed

text \<open>
  C9: every array allocated before a placement pass, the caller's usable mask among them,
  has the same content after \<^verbatim>\<open>_place_panels_with_orientation\<close> and after
  \<^verbatim>\<open>_place_panels_optimized\<close>, also when they raise: the passes write to the copy they
  allocate. So the portrait pass, which runs on the heap the landscape pass leaves, reads
  the usable mask the landscape pass read.
\<close>

theorem usable_mask_not_mutated:
  assumes "a < next_free hp"
  shows "cells (snd (place_panels_with_orientation ppt self hp um pw ph ang cnt)) a = cells hp a
       \<and> cells (snd (place_panels_optimized ppt self hp um ang cnt)) a = cells hp a"
  using assms by (simp add: pass_frame optimized_frame)

theorem usable_mask_not_mutated_witness:
  "(0::nat) < next_free heap0
   \<and> cells (snd (place_panels_with_orientation inside_everywhere self0 heap0 0 2 3 0 cnt0)) 0 = mask0
   \<and> cells (snd (place_panels_optimized inside_everywhere self0 heap0 0 0 cnt0)) 0 = mask0
   \<and> cells (snd (place_panels_with_orientation inside_everywhere self0 heap0 0 2 3 0 cnt0)) 1
       = mask0_used"
proof -
  have 0: "(0::nat) < next_free heap0" by (simp add: heap0_def)
  have 1: "cells heap0 0 = mask0" by (simp add: heap0_def)
  from usable_mask_not_mutated [OF 0, of inside_everywhere self0 0 2 3 0 cnt0] 0 1
  show ?thesis by (simp add: pass_landscape0)
qed

subsection \<open>The choice between the orientations\<close>

lemma place_candidate_sim:
  assumes "cells (st_heap s) a = cells (st_heap t) b" "st_panels s = st_panels t"
    "st_panel_id s = st_panel_id t"
  shows "cells (st_heap (place_candidate ppt p2m a pw ph ang cnt y x s)) a
           = cells (st_heap (place_candidate ppt p2m b pw ph ang cnt y x t)) b
       \<and> st_panels (place_candidate ppt p2m a pw ph ang cnt y x s)
           = st_panels (place_candidate ppt p2m b pw ph ang cnt y x t)
       \<and> st_panel_id (place_candidate ppt p2m a pw ph ang cnt y x s)
           = st_panel_id (place_candidate ppt p2m b pw ph ang cnt y x t)"
  using assms by (simp add: place_candidate_def Let_def heap_write_def)

lemma scan_columns_sim:
  assumes "cells (st_heap s) a = cells (st_heap t) b" "st_panels s = st_panels t"
    "st_panel_id s = st_panel_id t"
  shows "cells (st_heap (scan_columns ppt p2m a pw ph ang cnt y xs s)) a
           = cells (st_heap (scan_columns ppt p2m b pw ph ang cnt y xs t)) b
       \<and> st_panels (scan_columns ppt p2m a pw ph ang cnt y xs s)
           = st_panels (scan_columns ppt p2m b pw ph ang cnt y xs t)
       \<and> st_panel_id (scan_columns ppt p2m a pw ph ang cnt y xs s)
           = st_panel_id (scan_columns ppt p2m b pw ph ang cnt y xs t)"
  using assms
proof (induction xs arbitrary: s t)
  case Nil
  then show ?case by simp
next
  case (Cons x xs)
  from place_candidate_sim [OF Cons.prems, of ppt p2m pw ph ang cnt y x]
  have "cells (st_heap (place_candidate ppt p2m a pw ph ang cnt y x s)) a
           = cells (st_heap (place_candidate ppt p2m b pw ph ang cnt y x t)) b"
    and "st_panels (place_candidate ppt p2m a pw ph ang cnt y x s)
           = st_panels (place_candidate ppt p2m b pw ph ang cnt y x t)"
    and "st_panel_id (place_candidate ppt p2m a pw ph ang cnt y x s)
           = st_panel_id (place_candidate ppt p2m b pw ph ang cnt y x t)"
    by simp_all
  from Cons.IH [OF this] show ?case by simp
qed

lemma scan_rows_sim:
  assumes "cells (st_heap s) a = cells (st_heap t) b" "st_panels s = st_panels t"
    "st_panel_id s = st_panel_id t"
  shows "fst (scan_rows ppt p2m a pw ph ang cnt w sx ys s)
       = fst (scan_rows ppt p2m b pw ph ang cnt w sx ys t)"
  using assms
proof (induction ys arbitrary: s t)
  case Nil
  then show ?case by simp
next
  case (Cons y ys)
  show ?case
  proof (cases "py_range 0 (w - pw) sx")
    case (Inl e)
    then show ?thesis by simp
  next
    case (Inr xs)
    from scan_columns_sim [OF Cons.prems, of ppt p2m pw ph ang cnt y xs]
    have "cells (st_heap (scan_columns ppt p2m a pw ph ang cnt y xs s)) a
           = cells (st_heap (scan_columns ppt p2m b pw ph ang cnt y xs t)) b"
      and "st_panels (scan_columns ppt p2m a pw ph ang cnt y xs s)
           = st_panels (scan_columns ppt p2m b pw ph ang cnt y xs t)"
      and "st_panel_id (scan_columns ppt p2m a pw ph ang cnt y xs s)
           = st_panel_id (scan_columns ppt p2m b pw ph ang cnt y xs t)"
      by simp_all
    from Cons.IH [OF this] show ?thesis by (simp add: Inr)
  qed
qed

lemma pass_depends_on_mask:
  assumes "cells hp um = cells hp' um"
  shows "fst (place_panels_with_orientation ppt self hp um pw ph ang cnt)
       = fst (place_panels_with_orientation ppt self hp' um pw ph ang cnt)"
proof -
  obtain h w where hw: "shape (cells hp um) = (h, w)" by (cases "shape (cells hp um)")
  then have hw': "shape (cells hp' um) = (h, w)" using assms by simp
  show ?thesis
  proof (cases "bind_res (cfg_get (config self) ''panel_spacing_m'') (\<lambda>sp.
       bind_res (cfg_get (config self) ''pixel_to_meter'') (\<lambda>p2m.
       bind_res (py_truediv sp p2m) (\<lambda>q. Inr (p2m, max 1 (py_int q)))))")
    case (Inl e)
    then show ?thesis by (simp add: place_panels_with_orientation_def hw hw')
  next
    case (Inr r)
    obtain p2m spacing where r: "r = (p2m, spacing)" by (cases r)
    show ?thesis
    proof (cases "py_range 0 (h - ph) (ph + spacing)")
      case (Inl e)
      then show ?thesis
        by (simp add: place_panels_with_orientation_def hw hw' Inr r ndarray_copy_def Let_def)
    next
      case ys: (Inr ys)
      let ?s = "\<lparr>st_heap = hp\<lparr>cells := (cells hp)(next_free hp := cells hp um),
                  next_free := Suc (next_free hp)\<rparr>, st_panels = [], st_panel_id = 1\<rparr>"
      let ?t = "\<lparr>st_heap = hp'\<lparr>cells := (cells hp')(next_free hp' := cells hp' um),
                  next_free := Suc (next_free hp')\<rparr>, st_panels = [], st_panel_id = 1\<rparr>"
      have "fst (scan_rows ppt p2m (next_free hp) pw ph ang cnt w (pw + spacing) ys ?s)
          = fst (scan_rows ppt p2m (next_free hp') pw ph ang cnt w (pw + spacing) ys ?t)"
        by (rule scan_rows_sim) (simp_all add: assms)
      then show ?thesis
        by (simp add: place_panels_with_orientation_def hw hw' Inr r ys ndarray_copy_def Let_def)
    qed
  qed
qed

lemma scan_rows_total:
  "sx \<noteq> 0 \<Longrightarrow> \<exists>ps. fst (scan_rows ppt p2m av pw ph ang cnt w sx ys st) = Inr ps"
proof -
  assume "sx \<noteq> 0"
  then obtain xs where xs: "py_range 0 (w - pw) sx = Inr xs" using py_range_total by blast
  show ?thesis unfolding scan_rows_fold [OF xs] by (simp add: Let_def)
qed

lemma pass_total:
  assumes "config self ''panel_spacing_m'' = Some sp" "config self ''pixel_to_meter'' = Some p2m"
    "p2m \<noteq> 0" "0 \<le> pw" "0 \<le> ph"
  shows "\<exists>ps. fst (place_panels_with_orientation ppt self hp um pw ph ang cnt) = Inr ps"
proof -
  obtain h w where hw: "shape (cells hp um) = (h, w)" by (cases "shape (cells hp um)")
  let ?spacing = "max 1 (py_int (sp / p2m))"
  have b: "bind_res (cfg_get (config self) ''panel_spacing_m'') (\<lambda>sp.
       bind_res (cfg_get (config self) ''pixel_to_meter'') (\<lambda>p2m.
       bind_res (py_truediv sp p2m) (\<lambda>q. Inr (p2m, max 1 (py_int q))))) = Inr (p2m, ?spacing)"
    using assms(1-3) by (simp add: bind_res_def cfg_get_def py_truediv_def)
  have "ph + ?spacing \<noteq> 0" using assms(5) by simp
  then obtain ys where ys: "py_range 0 (h - ph) (ph + ?spacing) = Inr ys"
    using py_range_total by blast
  have "pw + ?spacing \<noteq> 0" using assms(4) by simp
  from scan_rows_total [OF this] show ?thesis
    by (simp add: place_panels_with_orientation_def hw b ys ndarray_copy_def Let_def)
qed

text \<open>
  C6: under a configuration with a non-zero scale and panel dimensions that are not
  negative, \<^verbatim>\<open>_place_panels_optimized\<close> returns; the landscape pass (width by height) and
  the portrait pass (height by width) both return on the caller's mask, and the result is
  the landscape list when it is at least as long as the portrait list, the portrait list
  otherwise.
\<close>

theorem optimized_picks_larger:
  assumes "config self ''panel_spacing_m'' = Some sp"
    and "config self ''pixel_to_meter'' = Some p2m" and "p2m \<noteq> 0"
    and "0 \<le> panel_width_px self" and "0 \<le> panel_height_px self"
    and "um < next_free hp"
  shows "\<exists>landscape portrait.
      fst (place_panels_with_orientation ppt self hp um
             (panel_width_px self) (panel_height_px self) ang cnt) = Inr landscape
    \<and> fst (place_panels_with_orientation ppt self hp um
             (panel_height_px self) (panel_width_px self) ang cnt) = Inr portrait
    \<and> fst (place_panels_optimized ppt self hp um ang cnt)
        = Inr (if length landscape \<ge> length portrait then landscape else portrait)"
proof -
  let ?W = "panel_width_px self" and ?H = "panel_height_px self"
  let ?r1 = "place_panels_with_orientation ppt self hp um ?W ?H ang cnt"
  let ?r2 = "place_panels_with_orientation ppt self (snd ?r1) um ?H ?W ang cnt"
  obtain l where l: "fst ?r1 = Inr l"
    using pass_total [OF assms(1-3) assms(4,5)] by blast
  obtain p where p: "fst (place_panels_with_orientation ppt self hp um ?H ?W ang cnt) = Inr p"
    using pass_total [OF assms(1-3) assms(5,4)] by blast
  have "cells (snd ?r1) um = cells hp um" using assms(6) by (rule pass_frame)
  then have "fst ?r2 = fst (place_panels_with_orientation ppt self hp um ?H ?W ang cnt)"
    by (rule pass_depends_on_mask)
  with p have p2: "fst ?r2 = Inr p" by simp
  have r1: "?r1 = (Inr l, snd ?r1)" using l by (metis prod.collapse)
  have r2: "?r2 = (Inr p, snd ?r2)" using p2 by (metis prod.collapse)
  have "fst (place_panels_optimized ppt self hp um ang cnt)
        = Inr (if length l \<ge> length p then l else p)"
    unfolding place_panels_optimized_def
    by (subst r1, simp only: prod.case sum.case, subst r2, simp)
  with l p show ?thesis by blast
qed

theorem optimized_picks_larger_witness:
  "config self0 ''panel_spacing_m'' = Some 0.1 \<and> config self0 ''pixel_to_meter'' = Some 0.25
   \<and> (0.25::real) \<noteq> 0 \<and> 0 \<le> panel_width_px self0 \<and> 0 \<le> panel_height_px self0
   \<and> 0 < next_free heap0
   \<and> (\<exists>landscape portrait.
        fst (place_panels_with_orientation inside_everywhere self0 heap0 0 2 3 0 cnt0)
          = Inr landscape
      \<and> fst (place_panels_with_orientation inside_everywhere self0 heap0 0 3 2 0 cnt0)
          = Inr portrait
      \<and> length landscape = 2 \<and> length portrait = 2
      \<and> fst (place_panels_optimized inside_everywhere self0 heap0 0 0 cnt0) = Inr landscape)"
proof -
  have d: "panel_width_px self0 = 2" "panel_height_px self0 = 3" by (simp_all add: self0_def)
  have h: "(0.25::real) \<noteq> 0" "0 \<le> panel_width_px self0" "0 \<le> panel_height_px self0"
    "0 < next_free heap0" by (simp_all add: self0_def heap0_def)
  from optimized_picks_larger [OF self0_keys h, of inside_everywhere 0 cnt0]
  have "fst (place_panels_optimized inside_everywhere self0 heap0 0 0 cnt0)
      = Inr [create_panel_geometry 0.25 1 0 0 2 3 0, create_panel_geometry 0.25 2 3 0 2 3 0]"
    unfolding d using pass_landscape0 pass_portrait0 by simp
  with self0_keys h pass_landscape0 pass_portrait0 show ?thesis by simp
qed

section \<open>Duplicate suppression: results\<close>

lemma nms_loop_subset: "set (nms_loop b a t xs) \<subseteq> set xs"
  by (induction b a t xs rule: nms_loop.induct) auto

lemma nms_loop_sorted_wrt:
  "sorted_wrt R xs \<Longrightarrow> sorted_wrt R (nms_loop b a t xs)"
proof (induction b a t xs rule: nms_loop.induct)
  case (1 b a t)
  then show ?case by simp
next
  case (2 b a t i rest)
  show ?case
  proof (cases "rest = []")
    case True
    then show ?thesis by simp
  next
    case False
    let ?f = "filter (survives b a t i) rest"
    from "2.prems" have r: "sorted_wrt R rest" and h: "\<forall>j\<in>set rest. R i j" by simp_all
    from r have "sorted_wrt R ?f" by (rule sorted_wrt_filter)
    with "2.IH" False have s: "sorted_wrt R (nms_loop b a t ?f)" by simp
    have "set (nms_loop b a t ?f) \<subseteq> set rest" using nms_loop_subset [of b a t ?f] by auto
    with h s False show ?thesis by auto
  qed
qed

lemma nms_loop_survivors:
  "sorted_wrt (survives b a t) (nms_loop b a t xs)"
proof (induction b a t xs rule: nms_loop.induct)
  case (1 b a t)
  then show ?case by simp
next
  case (2 b a t i rest)
  show ?case
  proof (cases "rest = []")
    case True
    then show ?thesis by simp
  next
    case False
    let ?f = "filter (survives b a t i) rest"
    have "set (nms_loop b a t ?f) \<subseteq> set ?f" by (rule nms_loop_subset)
    then have "\<forall>j\<in>set (nms_loop b a t ?f). survives b a t i j" by auto
    with "2.IH" False show ?thesis by simp
  qed
qed

lemma nms_loop_fixed:
  "sorted_wrt (survives b a t) xs \<Longrightarrow> nms_loop b a t xs = xs"
proof (induction b a t xs rule: nms_loop.induct)
  case (1 b a t)
  then show ?case by simp
next
  case (2 b a t i rest)
  from "2.prems" have r: "sorted_wrt (survives b a t) rest"
    and h: "\<forall>j\<in>set rest. survives b a t i j" by simp_all
  from h have f: "filter (survives b a t i) rest = rest" by simp
  show ?case
  proof (cases "rest = []")
    case True
    then show ?thesis by simp
  next
    case False
    with "2.IH" r f show ?thesis by simp
  qed
qed

lemma nms_loop_distinct: "distinct xs \<Longrightarrow> distinct (nms_loop b a t xs)"
proof (induction b a t xs rule: nms_loop.induct)
  case (1 b a t)
  then show ?case by simp
next
  case (2 b a t i rest)
  let ?f = "filter (survives b a t i) rest"
  have s: "set (nms_loop b a t ?f) \<subseteq> set rest" using nms_loop_subset [of b a t ?f] by auto
  from "2.prems" have "i \<notin> set rest" "distinct ?f" by simp_all
  with "2.IH" s show ?case by (cases "rest = []") auto
qed

lemma box_overlap_sym:
  "a ! i = a ! j \<Longrightarrow> box_overlap b a i j = box_overlap b a j i"
  by (simp add: box_overlap_def Let_def max.commute min.commute split: prod.splits)

lemma survives_sym:
  "a ! i = a ! j \<Longrightarrow> survives b a t i j \<Longrightarrow> survives b a t j i"
  using box_overlap_sym [of a i j b] by (simp add: survives_def)

lemma survives_cong:
  "b' ! u = b ! i \<Longrightarrow> b' ! v = b ! j \<Longrightarrow> a' ! v = a ! j \<Longrightarrow>
   survives b' a' t u v = survives b a t i j"
  by (simp add: survives_def box_overlap_def)

lemma sorts_ascending_rev:
  assumes "sorts_ascending argsort xs"
  shows "mset (rev (argsort xs)) = mset [0..<length xs]"
    and "distinct (rev (argsort xs))"
    and "set (rev (argsort xs)) = {0..<length xs}"
    and "sorted_wrt (\<lambda>i j. xs ! j \<le> xs ! i) (rev (argsort xs))"
proof -
  from assms have m: "mset (argsort xs) = mset [0..<length xs]"
    and s: "sorted (map (\<lambda>i. xs ! i) (argsort xs))" by (simp_all add: sorts_ascending_def)
  show "mset (rev (argsort xs)) = mset [0..<length xs]" using m by simp
  have "distinct (argsort xs)" using m by (metis distinct_upt mset_eq_imp_distinct_iff)
  then show "distinct (rev (argsort xs))" by simp
  have "set (argsort xs) = set [0..<length xs]" using m by (rule mset_eq_setD)
  then show "set (rev (argsort xs)) = {0..<length xs}" by simp
  from s have "sorted_wrt (\<lambda>i j. xs ! i \<le> xs ! j) (argsort xs)" by (simp add: sorted_map)
  then show "sorted_wrt (\<lambda>i j. xs ! j \<le> xs ! i) (rev (argsort xs))"
    by (simp add: sorted_wrt_rev)
qed

lemma non_max_suppression_mset:
  assumes 1: "sorts_ascending argsort (map box_area (map boundingRect contours))"
    and 2: "sorts_ascending argsort (map box_area (map boundingRect
              (non_max_suppression boundingRect argsort contours t)))"
  shows "mset (non_max_suppression boundingRect argsort
                (non_max_suppression boundingRect argsort contours t) t)
       = mset (non_max_suppression boundingRect argsort contours t)"
proof (cases "length contours = 0")
  case True
  then show ?thesis by (simp add: non_max_suppression_def)
next
  case False
  let ?B = "map boundingRect contours"
  let ?A = "map box_area ?B"
  let ?n = "length contours"
  let ?idxs = "rev (argsort ?A)"
  let ?keep = "nms_loop ?B ?A t ?idxs"
  let ?out = "map (\<lambda>i. contours ! i) ?keep"
  have out: "non_max_suppression boundingRect argsort contours t = ?out"
    using False by (simp add: non_max_suppression_def Let_def)
  let ?m = "length ?keep"
  let ?B' = "map boundingRect ?out"
  let ?A' = "map box_area ?B'"
  let ?idxs' = "rev (argsort ?A')"
  note i1 = sorts_ascending_rev [OF 1]
  note i2 = sorts_ascending_rev [OF 2 [unfolded out]]
  have ks: "set ?keep \<subseteq> {0..<?n}"
    using nms_loop_subset [of ?B ?A t ?idxs] i1(3) by simp
  have kd: "distinct ?keep" using i1(2) by (rule nms_loop_distinct)
  have ka: "sorted_wrt (\<lambda>i j. ?A ! j \<le> ?A ! i) ?keep"
    using i1(4) by (rule nms_loop_sorted_wrt)
  have kv: "sorted_wrt (survives ?B ?A t) ?keep" by (rule nms_loop_survivors)
  have lt: "?keep ! k < ?n" if "k < ?m" for k
    using ks that by (meson atLeastLessThan_iff nth_mem subsetD)
  have B': "?B' ! k = ?B ! (?keep ! k)" if "k < ?m" for k
    using that lt [OF that] by simp
  have A': "?A' ! k = ?A ! (?keep ! k)" if "k < ?m" for k
    using that lt [OF that] by simp
  have len': "length ?A' = ?m" by simp
  have s2: "set ?idxs' = {0..<?m}" using i2(3) by simp
  have sv: "sorted_wrt (survives ?B' ?A' t) ?idxs'"
    unfolding sorted_wrt_iff_nth_less
  proof (intro allI impI)
    fix p q
    assume pq: "p < q" and q: "q < length ?idxs'"
    let ?u = "?idxs' ! p" and ?v = "?idxs' ! q"
    have p: "p < length ?idxs'" using pq q by simp
    have u: "?u < ?m" using s2 p by (metis atLeastLessThan_iff nth_mem)
    have v: "?v < ?m" using s2 q by (metis atLeastLessThan_iff nth_mem)
    have ne: "?u \<noteq> ?v" using i2(2) p q pq by (metis nth_eq_iff_index_eq less_irrefl)
    have "?A' ! ?v \<le> ?A' ! ?u"
      using i2(4) pq q unfolding sorted_wrt_iff_nth_less by blast
    then have le: "?A ! (?keep ! ?v) \<le> ?A ! (?keep ! ?u)" using A' [OF u] A' [OF v] by simp
    have eqv: "survives ?B' ?A' t ?u ?v = survives ?B ?A t (?keep ! ?u) (?keep ! ?v)"
      by (rule survives_cong) (rule B' [OF u], rule B' [OF v], rule A' [OF v])
    have "survives ?B ?A t (?keep ! ?u) (?keep ! ?v)"
    proof (cases "?u < ?v")
      case True
      with kv v show ?thesis unfolding sorted_wrt_iff_nth_less by blast
    next
      case False
      with ne have vu: "?v < ?u" by simp
      from kv vu u have sw: "survives ?B ?A t (?keep ! ?v) (?keep ! ?u)"
        unfolding sorted_wrt_iff_nth_less by blast
      from ka vu u have "?A ! (?keep ! ?u) \<le> ?A ! (?keep ! ?v)"
        unfolding sorted_wrt_iff_nth_less by blast
      with le have "?A ! (?keep ! ?v) = ?A ! (?keep ! ?u)" by simp
      then show ?thesis using sw by (rule survives_sym)
    qed
    with eqv show "survives ?B' ?A' t ?u ?v" by simp
  qed
  then have fx: "nms_loop ?B' ?A' t ?idxs' = ?idxs'" by (rule nms_loop_fixed)
  show ?thesis
  proof (cases "length ?out = 0")
    case True
    then show ?thesis unfolding out by (simp add: non_max_suppression_def)
  next
    case nz: False
    have "non_max_suppression boundingRect argsort ?out t = map (\<lambda>i. ?out ! i) ?idxs'"
      using nz fx by (simp add: non_max_suppression_def Let_def)
    moreover have "mset (map (\<lambda>i. ?out ! i) ?idxs') = mset ?out"
    proof -
      have "mset (map (\<lambda>i. ?out ! i) ?idxs') = image_mset (\<lambda>i. ?out ! i) (mset ?idxs')"
        by simp
      also have "\<dots> = image_mset (\<lambda>i. ?out ! i) (mset [0..<length ?out])"
        using i2(1) by simp
      also have "\<dots> = mset (map (\<lambda>i. ?out ! i) [0..<length ?out])" by simp
      also have "\<dots> = mset ?out" by (simp only: map_nth)
      finally show ?thesis .
    qed
    ultimately show ?thesis unfolding out by simp
  qed
qed

lemma sample_boxes:
  "boundingRect_points roof_a = (0, 0, 10, 10)"
  "boundingRect_points roof_b = (2, 2, 4, 4)"
  "boundingRect_points roof_c = (20, 0, 6, 6)"
  by (simp_all add: boundingRect_points_def roof_a_def roof_b_def roof_c_def)

lemma sample_argsort: "stable_argsort [16, 100, 36] = [0, 2, 1]" "stable_argsort [100, 36] = [1, 0]"
  by (simp_all add: stable_argsort_def upt_conv_Cons)

lemma sample_sorts: "sorts_ascending stable_argsort [16, 100, 36]" "sorts_ascending stable_argsort [100, 36]"
  by (simp_all add: sorts_ascending_def sample_argsort upt_conv_Cons)

lemma nms_sample:
  "non_max_suppression boundingRect_points stable_argsort [roof_b, roof_a, roof_c] 0.3
     = [roof_a, roof_c]"
  by (simp add: non_max_suppression_def sample_boxes box_area_def sample_argsort survives_def box_overlap_def)

lemma nms_sample_again:
  "non_max_suppression boundingRect_points stable_argsort [roof_a, roof_c] 0.3
     = [roof_a, roof_c]"
  by (simp add: non_max_suppression_def sample_boxes box_area_def sample_argsort survives_def box_overlap_def)

text \<open>
  C5: whenever the sort of the areas does its work on the input and on the output, the
  suppression applied to its own output returns the same set of contours (the same
  contours with the same multiplicities, by \<open>non_max_suppression_mset\<close>), for every
  list of contours and every threshold.
\<close>

theorem non_max_suppression_idempotent:
  assumes "sorts_ascending argsort (map box_area (map boundingRect contours))"
    and "sorts_ascending argsort (map box_area (map boundingRect
              (non_max_suppression boundingRect argsort contours t)))"
  shows "set (non_max_suppression boundingRect argsort
                (non_max_suppression boundingRect argsort contours t) t)
       = set (non_max_suppression boundingRect argsort contours t)"
  using non_max_suppression_mset [OF assms] by (rule mset_eq_setD)

theorem non_max_suppression_idempotent_witness:
  "sorts_ascending stable_argsort (map box_area (map boundingRect_points [roof_b, roof_a, roof_c]))
   \<and> sorts_ascending stable_argsort (map box_area (map boundingRect_points
        (non_max_suppression boundingRect_points stable_argsort [roof_b, roof_a, roof_c] 0.3)))
   \<and> non_max_suppression boundingRect_points stable_argsort [roof_b, roof_a, roof_c] 0.3
        = [roof_a, roof_c]
   \<and> set (non_max_suppression boundingRect_points stable_argsort
        (non_max_suppression boundingRect_points stable_argsort [roof_b, roof_a, roof_c] 0.3) 0.3)
      = set (non_max_suppression boundingRect_points stable_argsort [roof_b, roof_a, roof_c] 0.3)"
proof -
  have 1: "sorts_ascending stable_argsort
             (map box_area (map boundingRect_points [roof_b, roof_a, roof_c]))"
    by (simp add: sample_boxes box_area_def sample_sorts)
  have 2: "sorts_ascending stable_argsort (map box_area (map boundingRect_points
        (non_max_suppression boundingRect_points stable_argsort [roof_b, roof_a, roof_c] 0.3)))"
    by (simp add: nms_sample sample_boxes box_area_def sample_sorts)
  from non_max_suppression_idempotent [OF 1 2] 1 2 nms_sample show ?thesis by blast
qed

section \<open>Obstacle detector: results\<close>

lemma replicate_of_subset:
  "set xs \<subseteq> {v} \<Longrightarrow> xs = replicate (length xs) v"
  by (induction xs) simp_all

lemma replicate_of_set:
  "set xs = {v} \<Longrightarrow> xs = replicate (length xs) v"
  by (rule replicate_of_subset) simp

lemma np_mean_replicate: "0 < n \<Longrightarrow> np_mean (replicate n c) = c"
  by (simp add: np_mean_def sum_list_replicate)

lemma np_std_replicate: "0 < n \<Longrightarrow> np_std (replicate n c) = 0"
  by (simp add: np_std_def np_mean_replicate)

lemma uniform_stats:
  assumes "set xs = {v}"
  shows "np_mean (map (\<lambda>v. real (unat v)) xs) = real (unat v)"
    and "np_std (map (\<lambda>v. real (unat v)) xs) = 0"
proof -
  from assms have "xs \<noteq> []" by auto
  then have n: "0 < length xs" by simp
  from assms have "xs = replicate (length xs) v" by (rule replicate_of_set)
  then have m: "map (\<lambda>v. real (unat v)) xs = replicate (length xs) (real (unat v))"
    by (metis map_replicate)
  show "np_mean (map (\<lambda>v. real (unat v)) xs) = real (unat v)"
    unfolding m using n by (rule np_mean_replicate)
  show "np_std (map (\<lambda>v. real (unat v)) xs) = 0"
    unfolding m using n by (rule np_std_replicate)
qed

lemma zip_map_zip:
  "zip (map f (zip xs ys)) ys = map (\<lambda>p. (f p, snd p)) (zip xs ys)"
proof (induction xs arbitrary: ys)
  case Nil
  then show ?case by simp
next
  case (Cons x xs)
  then show ?case by (cases ys) simp_all
qed

lemma pixels_fused:
  "bitwise_and (map (map T) (masked_copy g m)) m =
     map2 (map2 (\<lambda>v k. T (if k \<noteq> 0 then v else 0) AND k)) g m"
  by (simp add: bitwise_and_def masked_copy_def zip_map_zip split_def o_def)

lemma map2_map2_cong:
  assumes "\<And>r s p k. (r, s) \<in> set (zip g m) \<Longrightarrow> (p, k) \<in> set (zip r s) \<Longrightarrow> f p k = f' p k"
  shows "map2 (map2 f) g m = map2 (map2 f') g m"
  using assms by (auto intro!: map_cong)

lemma uniform_pairs:
  assumes "set (masked_pixels g m) = {v}" "(r, s) \<in> set (zip g m)" "(p, k) \<in> set (zip r s)"
    "k \<noteq> 0"
  shows "p = v"
proof -
  have "(p, k) \<in> set (pixel_pairs g m)"
    using assms(2,3) by (force simp: pixel_pairs_def)
  moreover have "k > 0" using assms(4) by (simp add: word_neq_0_conv)
  ultimately have "p \<in> set (masked_pixels g m)"
    by (force simp: masked_pixels_def)
  with assms(1) show ?thesis by simp
qed

lemma map2_snd_same_shape:
  "same_shape g m \<Longrightarrow> map2 (map2 (\<lambda>v k. k)) g m = m"
  unfolding same_shape_def
  by (induction g m rule: list_all2_induct) (simp_all add: map_snd_zip split_def)

lemma map2_zero_same_shape:
  "same_shape g m \<Longrightarrow> map2 (map2 (\<lambda>v k. 0)) g m = zeros_like m"
  unfolding same_shape_def zeros_like_def
proof (induction g m rule: list_all2_induct)
  case Nil
  then show ?case by simp
next
  case (Cons r g s m)
  have "map (\<lambda>a. 0::8 word) (zip r s) = map (\<lambda>_. 0) s"
    using Cons.hyps(1) by (induction r s rule: list_induct2) simp_all
  with Cons.IH show ?case by (simp add: split_def)
qed

lemma full_and: "(255 :: 8 word) AND k = k"
proof -
  have "(255 :: 8 word) = - 1" by simp
  then show ?thesis by (simp only: and.left_neutral)
qed

lemma floor_min_le: "n \<le> 235 \<Longrightarrow> \<lfloor>min 235 (real n)\<rfloor> = int n"
  by (simp add: min_def)

lemma floor_min_gt: "\<not> n \<le> 235 \<Longrightarrow> \<lfloor>min 235 (real n)\<rfloor> = 235"
  by (simp add: min_def)

lemma floor_max_lt: "n < 20 \<Longrightarrow> \<lfloor>max 20 (real n)\<rfloor> = 20"
  by (simp add: max_def)

lemma uniform_bright:
  assumes u: "set (masked_pixels gray roof_mask) = {v}" and sh: "same_shape gray roof_mask"
  shows "bright_spots (masked_copy gray roof_mask) roof_mask (real (unat v)) 0
       = (if unat v \<le> 235 then zeros_like roof_mask else roof_mask)"
proof -
  let ?t = "min 235 (real (unat v))"
  let ?T = "\<lambda>p::8 word. if uint p > \<lfloor>?t\<rfloor> then (255::8 word) else 0"
  have b: "bright_spots (masked_copy gray roof_mask) roof_mask (real (unat v)) 0
        = map2 (map2 (\<lambda>p k. ?T (if k \<noteq> 0 then p else 0) AND k)) gray roof_mask"
    unfolding bright_spots_def threshold_binary_def Let_def
    by (simp only: pixels_fused mult_zero_right add_0_right)
  show ?thesis
  proof (cases "unat v \<le> 235")
    case True
    then have fl: "\<lfloor>?t\<rfloor> = uint v" by (simp only: floor_min_le uint_nat)
    have "map2 (map2 (\<lambda>p k. ?T (if k \<noteq> 0 then p else 0) AND k)) gray roof_mask
        = map2 (map2 (\<lambda>p k. 0)) gray roof_mask"
    proof (rule map2_map2_cong)
      fix r s p k
      assume rs: "(r, s) \<in> set (zip gray roof_mask)" and pk: "(p, k) \<in> set (zip r s)"
      show "?T (if k \<noteq> 0 then p else 0) AND k = 0"
      proof (cases "k = 0")
        case True
        then show ?thesis by simp
      next
        case False
        from uniform_pairs [OF u rs pk False] have "p = v" .
        then show ?thesis
          by (simp only: False fl simp_thms if_True if_False less_irrefl) simp
      qed
    qed
    with b True sh show ?thesis by (simp only: map2_zero_same_shape if_True)
  next
    case False
    then have fl: "\<lfloor>?t\<rfloor> = 235" by (rule floor_min_gt)
    from False have "235 < unat v" by simp
    then have "int 235 < int (unat v)" by (simp only: of_nat_less_iff)
    then have gt: "uint v > 235" by (simp only: uint_nat of_nat_numeral)
    have "map2 (map2 (\<lambda>p k. ?T (if k \<noteq> 0 then p else 0) AND k)) gray roof_mask
        = map2 (map2 (\<lambda>p k. k)) gray roof_mask"
    proof (rule map2_map2_cong)
      fix r s p k
      assume rs: "(r, s) \<in> set (zip gray roof_mask)" and pk: "(p, k) \<in> set (zip r s)"
      show "?T (if k \<noteq> 0 then p else 0) AND k = k"
      proof (cases "k = 0")
        case True
        then show ?thesis by simp
      next
        case nz: False
        from uniform_pairs [OF u rs pk nz] have "p = v" .
        then show ?thesis
          by (simp only: nz fl gt simp_thms if_True if_False full_and)
      qed
    qed
    with b False sh show ?thesis by (simp only: map2_snd_same_shape if_False)
  qed
qed

lemma uniform_dark:
  assumes u: "set (masked_pixels gray roof_mask) = {v}" and sh: "same_shape gray roof_mask"
    and lo: "unat v < 20"
  shows "dark_spots (masked_copy gray roof_mask) roof_mask (real (unat v)) 0 = roof_mask"
proof -
  let ?t = "max 20 (real (unat v))"
  let ?T = "\<lambda>p::8 word. if uint p > \<lfloor>?t\<rfloor> then (0::8 word) else 255"
  have b: "dark_spots (masked_copy gray roof_mask) roof_mask (real (unat v)) 0
        = map2 (map2 (\<lambda>p k. ?T (if k \<noteq> 0 then p else 0) AND k)) gray roof_mask"
    unfolding dark_spots_def threshold_binary_inv_def Let_def
    by (simp only: pixels_fused mult_zero_right diff_zero)
  have fl: "\<lfloor>?t\<rfloor> = 20" using lo by (rule floor_max_lt)
  from lo have "int (unat v) < int 20" by (simp only: of_nat_less_iff)
  then have "uint v < 20" by (simp only: uint_nat of_nat_numeral)
  then have le: "(20 < uint v) = False" by simp
  have "map2 (map2 (\<lambda>p k. ?T (if k \<noteq> 0 then p else 0) AND k)) gray roof_mask
      = map2 (map2 (\<lambda>p k. k)) gray roof_mask"
  proof (rule map2_map2_cong)
    fix r s p k
    assume rs: "(r, s) \<in> set (zip gray roof_mask)" and pk: "(p, k) \<in> set (zip r s)"
    show "?T (if k \<noteq> 0 then p else 0) AND k = k"
    proof (cases "k = 0")
      case True
      then show ?thesis by simp
    next
      case nz: False
      from uniform_pairs [OF u rs pk nz] have "p = v" .
      then show ?thesis
        by (simp only: nz fl le simp_thms if_True if_False full_and)
    qed
  qed
  with b sh show ?thesis by (simp only: map2_snd_same_shape)
qed

lemma roof5_pixels: "masked_pixels (uniform_image v) roof5_mask = [v, v, v, v, v, v, v, v, v]"
  by (simp add: masked_pixels_def pixel_pairs_def uniform_image_def roof5_mask_def)

lemma roof5_uniform: "set (masked_pixels (uniform_image v) roof5_mask) = {v}"
  by (simp add: roof5_pixels)

lemma roof5_shape: "same_shape (uniform_image v) roof5_mask"
  by (simp add: same_shape_def uniform_image_def roof5_mask_def)

lemma roof5_stats:
  "np_mean (map (\<lambda>v. real (unat v)) (masked_pixels (uniform_image v) roof5_mask)) = real (unat v)"
  "np_std (map (\<lambda>v. real (unat v)) (masked_pixels (uniform_image v) roof5_mask)) = 0"
  by (rule uniform_stats [OF roof5_uniform])+

lemma roof5_dark_255:
  "dark_spots (masked_copy (uniform_image 255) roof5_mask) roof5_mask (real (unat (255::8 word))) 0
     = roof5_mask"
  by (simp add: dark_spots_def threshold_binary_inv_def bitwise_and_def masked_copy_def
      uniform_image_def roof5_mask_def)

lemma roof5_dark_100:
  "dark_spots (masked_copy (uniform_image 100) roof5_mask) roof5_mask (real (unat (100::8 word))) 0
     = roof5_mask"
  by (simp add: dark_spots_def threshold_binary_inv_def bitwise_and_def masked_copy_def
      uniform_image_def roof5_mask_def)

lemma roof5_morph:
  "dilate MORPH_ELLIPSE_5 (dilate MORPH_ELLIPSE_3 (erode MORPH_ELLIPSE_3
     (bitwise_or (bitwise_or roof5_mask roof5_mask) (zeros_like roof5_mask)))) = uniform_image 255"
  "dilate MORPH_ELLIPSE_5 (dilate MORPH_ELLIPSE_3 (erode MORPH_ELLIPSE_3
     (bitwise_or (bitwise_or roof5_mask (zeros_like roof5_mask)) (zeros_like roof5_mask))))
     = uniform_image 255"
  by code_simp+

lemma detect_obstacles_white:
  "detect_obstacles zeros_like (uniform_image 255) roof5_mask = uniform_image 255"
  unfolding detect_obstacles_def Let_def roof5_stats roof5_dark_255
    uniform_bright [OF roof5_uniform roof5_shape]
  by (simp add: roof5_pixels roof5_morph)

text \<open>
  A roof of the uniform intensity 100 is marked as well: the dark threshold is the intensity
  itself, and \<^verbatim>\<open>THRESH_BINARY_INV\<close> marks the pixels that equal the threshold.
\<close>

lemma detect_obstacles_grey:
  "detect_obstacles zeros_like (uniform_image 100) roof5_mask = uniform_image 255"
  unfolding detect_obstacles_def Let_def roof5_stats roof5_dark_100
    uniform_bright [OF roof5_uniform roof5_shape]
  by (simp add: roof5_pixels roof5_morph)

text \<open>
  C1, as the claim states it, fails. On a roof whose 9 pixels all have the intensity 255 (a
  white roof of a pre-segmented image) and whose mask has no internal contour, the detector
  returns a mask of 25 marked pixels: every roof pixel is above the bright threshold
  \<open>min(235, 255)\<close>, and the opening and the two dilations keep and spread the marks.
\<close>

theorem uniform_roof_counterexample:
  "set (masked_pixels (uniform_image 255) roof5_mask) = {255}
   \<and> mask_area (detect_obstacles zeros_like (uniform_image 255) roof5_mask) = 25"
proof -
  have "mask_area (uniform_image 255) = 25"
    by (simp add: mask_area_def uniform_image_def)
  with roof5_uniform [of 255] show ?thesis
    unfolding detect_obstacles_white by (rule conjI)
qed

text \<open>
  C1, amended: on a rooftop whose pixels under the mask all have the same intensity \<open>v\<close>
  the standard deviation is 0 and the bright-spot test marks no pixel when \<open>v \<le> 235\<close>;
  when \<open>v > 235\<close> it marks every pixel of the roof mask, and when \<open>v < 20\<close> the dark-spot
  test marks every pixel of the roof mask, the thresholds being capped at 235 and at 20.
\<close>

theorem uniform_roof_spots:
  assumes "set (masked_pixels gray roof_mask) = {v}" and "same_shape gray roof_mask"
  shows "let roof_pixels = masked_pixels gray roof_mask;
             mean_intensity = np_mean (map (\<lambda>v. real (unat v)) roof_pixels);
             std_intensity = np_std (map (\<lambda>v. real (unat v)) roof_pixels);
             roof_region = masked_copy gray roof_mask
         in std_intensity = 0
          \<and> bright_spots roof_region roof_mask mean_intensity std_intensity
              = (if unat v \<le> 235 then zeros_like roof_mask else roof_mask)
          \<and> (unat v < 20 \<longrightarrow>
               dark_spots roof_region roof_mask mean_intensity std_intensity = roof_mask)"
  unfolding Let_def uniform_stats [OF assms(1)]
  using uniform_bright [OF assms] uniform_dark [OF assms] by simp

theorem uniform_roof_spots_witness:
  "set (masked_pixels (uniform_image 255) roof5_mask) = {255}
   \<and> same_shape (uniform_image 255) roof5_mask
   \<and> bright_spots (masked_copy (uniform_image 255) roof5_mask) roof5_mask 255 0 = roof5_mask
   \<and> set (masked_pixels (uniform_image 10) roof5_mask) = {10}
   \<and> same_shape (uniform_image 10) roof5_mask
   \<and> bright_spots (masked_copy (uniform_image 10) roof5_mask) roof5_mask 10 0
        = zeros_like roof5_mask
   \<and> dark_spots (masked_copy (uniform_image 10) roof5_mask) roof5_mask 10 0 = roof5_mask"
proof -
  have a: "real (unat (255::8 word)) = 255" "real (unat (10::8 word)) = 10" by simp_all
  from uniform_roof_spots [OF roof5_uniform roof5_shape, of 255]
  have 1: "bright_spots (masked_copy (uniform_image 255) roof5_mask) roof5_mask 255 0 = roof5_mask"
    unfolding Let_def roof5_stats a by simp
  from uniform_roof_spots [OF roof5_uniform roof5_shape, of 10]
  have 2: "bright_spots (masked_copy (uniform_image 10) roof5_mask) roof5_mask 10 0
        = zeros_like roof5_mask"
    and 3: "dark_spots (masked_copy (uniform_image 10) roof5_mask) roof5_mask 10 0 = roof5_mask"
    unfolding Let_def roof5_stats a by simp_all
  from 1 2 3 roof5_uniform roof5_shape show ?thesis by simp
qed

end
